theory Spec2Isabelle
  imports Complex_Main "HOL-Library.Sublist"
begin

section \<open>Strings\<close>

text \<open>
  A Python \<open>str\<close> is modelled as a \<open>string\<close>: a list of characters with code points
  0..255 (what the Latin-1 fallback of the readers produces). The string methods the
  program calls are written out below, each one after the behaviour of the method of the
  same name.
\<close>

definition isspace :: "char \<Rightarrow> bool" where
  \<comment> \<open>\<open>str.isspace\<close> on one character, also the class \<open>\s\<close> of \<open>re\<close>\<close>
  "isspace c = (c \<in> set [CHR 0x09, CHR 0x0A, CHR 0x0B, CHR 0x0C, CHR 0x0D,
                          CHR 0x1C, CHR 0x1D, CHR 0x1E, CHR 0x1F, CHR 0x20, CHR 0x85, CHR 0xA0])"

definition upper_chars :: string where
  "upper_chars = ''ABCDEFGHIJKLMNOPQRSTUVWXYZ'' @
     [CHR 0xC0, CHR 0xC1, CHR 0xC2, CHR 0xC3, CHR 0xC4, CHR 0xC5, CHR 0xC6, CHR 0xC7,
      CHR 0xC8, CHR 0xC9, CHR 0xCA, CHR 0xCB, CHR 0xCC, CHR 0xCD, CHR 0xCE, CHR 0xCF,
      CHR 0xD0, CHR 0xD1, CHR 0xD2, CHR 0xD3, CHR 0xD4, CHR 0xD5, CHR 0xD6,
      CHR 0xD8, CHR 0xD9, CHR 0xDA, CHR 0xDB, CHR 0xDC, CHR 0xDD, CHR 0xDE]"

definition lower_chars :: string where
  "lower_chars = ''abcdefghijklmnopqrstuvwxyz'' @
     [CHR 0xE0, CHR 0xE1, CHR 0xE2, CHR 0xE3, CHR 0xE4, CHR 0xE5, CHR 0xE6, CHR 0xE7,
      CHR 0xE8, CHR 0xE9, CHR 0xEA, CHR 0xEB, CHR 0xEC, CHR 0xED, CHR 0xEE, CHR 0xEF,
      CHR 0xF0, CHR 0xF1, CHR 0xF2, CHR 0xF3, CHR 0xF4, CHR 0xF5, CHR 0xF6,
      CHR 0xF8, CHR 0xF9, CHR 0xFA, CHR 0xFB, CHR 0xFC, CHR 0xFD, CHR 0xFE]"

definition lower_char :: "char \<Rightarrow> char" where
  "lower_char c = (case map_of (zip upper_chars lower_chars) c of None \<Rightarrow> c | Some d \<Rightarrow> d)"

definition lower :: "string \<Rightarrow> string" where
  \<comment> \<open>\<open>str.lower\<close>\<close>
  "lower s = map lower_char s"

definition strip :: "string \<Rightarrow> string" where
  \<comment> \<open>\<open>str.strip()\<close>: whitespace removed at both ends\<close>
  "strip s = rev (dropWhile isspace (rev (dropWhile isspace s)))"

definition startswith :: "string \<Rightarrow> string \<Rightarrow> bool" where
  \<comment> \<open>\<open>s.startswith(p)\<close>\<close>
  "startswith s p = (take (length p) s = p)"

fun contains :: "string \<Rightarrow> string \<Rightarrow> bool" where
  \<comment> \<open>\<open>sub in s\<close>, written \<open>contains sub s\<close>\<close>
  "contains sub [] = (sub = [])"
| "contains sub (c # cs) = (startswith (c # cs) sub \<or> contains sub cs)"

fun split_ws_acc :: "string \<Rightarrow> string \<Rightarrow> string list" where
  "split_ws_acc acc [] = (if acc = [] then [] else [rev acc])"
| "split_ws_acc acc (c # cs) =
     (if isspace c then (if acc = [] then split_ws_acc [] cs else rev acc # split_ws_acc [] cs)
      else split_ws_acc (c # acc) cs)"

definition split_ws :: "string \<Rightarrow> string list" where
  \<comment> \<open>\<open>str.split()\<close> with no argument: the maximal runs of non-whitespace\<close>
  "split_ws s = split_ws_acc [] s"

function split_acc :: "string \<Rightarrow> string \<Rightarrow> string \<Rightarrow> string list" where
  "split_acc sep acc [] = [rev acc]"
| "split_acc sep acc (c # cs) =
     (if sep \<noteq> [] \<and> startswith (c # cs) sep
      then rev acc # split_acc sep [] (drop (length sep - 1) cs)
      else split_acc sep (c # acc) cs)"
  by pat_completeness auto
termination
  by (relation "measure (\<lambda>(sep, acc, s). length s)") auto

definition split :: "string \<Rightarrow> string \<Rightarrow> string list" where
  \<comment> \<open>\<open>s.split(sep)\<close> for a non-empty separator, written \<open>split sep s\<close>\<close>
  "split sep s = split_acc sep [] s"

function replace :: "string \<Rightarrow> string \<Rightarrow> string \<Rightarrow> string" where
  \<comment> \<open>\<open>s.replace(old, new)\<close> for a non-empty \<open>old\<close>, written \<open>replace old new s\<close>\<close>
  "replace old new [] = []"
| "replace old new (c # cs) =
     (if old \<noteq> [] \<and> startswith (c # cs) old
      then new @ replace old new (drop (length old - 1) cs)
      else c # replace old new cs)"
  by pat_completeness auto
termination
  by (relation "measure (\<lambda>(old, new, s). length s)") auto

fun join :: "string \<Rightarrow> string list \<Rightarrow> string" where
  \<comment> \<open>\<open>sep.join(xs)\<close>\<close>
  "join sep [] = []"
| "join sep [x] = x"
| "join sep (x # y # ys) = x @ sep @ join sep (y # ys)"

section \<open>Regular expressions\<close>

text \<open>
  The program uses five fixed patterns, with \<open>re.sub(pattern, '', s)\<close> and
  \<open>re.split(pattern, s)\<close>. A pattern is given by its matcher: the length of the match
  that \<open>re\<close> finds when it tries the pattern at the start of a string, \<open>None\<close> when there
  is none there. No pattern matches the empty string, and none looks behind, so both
  functions scan from the left, take a match where the matcher finds one and go on after
  it, and otherwise move one character on.
\<close>

function re_sub_del :: "(string \<Rightarrow> nat option) \<Rightarrow> string \<Rightarrow> string" where
  \<comment> \<open>\<open>re.sub(pattern, '', s)\<close>\<close>
  "re_sub_del m [] = []"
| "re_sub_del m (c # cs) =
     (case m (c # cs) of
        Some n \<Rightarrow> re_sub_del m (drop (n - 1) cs)
      | None \<Rightarrow> c # re_sub_del m cs)"
  by pat_completeness auto
termination
  by (relation "measure (\<lambda>(m, s). length s)") auto

function re_split_acc :: "(string \<Rightarrow> nat option) \<Rightarrow> string \<Rightarrow> string \<Rightarrow> string list" where
  "re_split_acc m acc [] = [rev acc]"
| "re_split_acc m acc (c # cs) =
     (case m (c # cs) of
        Some n \<Rightarrow> rev acc # re_split_acc m [] (drop (n - 1) cs)
      | None \<Rightarrow> re_split_acc m (c # acc) cs)"
  by pat_completeness auto
termination
  by (relation "measure (\<lambda>(m, acc, s). length s)") auto

definition re_split :: "(string \<Rightarrow> nat option) \<Rightarrow> string \<Rightarrow> string list" where
  \<comment> \<open>\<open>re.split(pattern, s)\<close> for a pattern without groups\<close>
  "re_split m s = re_split_acc m [] s"

definition match_blank :: "string \<Rightarrow> nat option" where
  \<comment> \<open>\<open>\n\s*\n\<close>: the greedy \<open>\s*\<close> gives back as far as the last newline of the
      whitespace that follows the first one\<close>
  "match_blank s =
     (case s of [] \<Rightarrow> None
      | c # cs \<Rightarrow>
          if c \<noteq> CHR 0x0A then None
          else let ws = takeWhile isspace cs in
               if CHR 0x0A \<in> set ws
               then Some (1 + (length ws - length (takeWhile (\<lambda>x. x \<noteq> CHR 0x0A) (rev ws))))
               else None)"

definition match_setting :: "string \<Rightarrow> nat option" where
  \<comment> \<open>\<open>\s+(align|position|size|line):[^\s]+\<close>\<close>
  "match_setting s =
     (let ws = takeWhile isspace s; r = dropWhile isspace s in
      if ws = [] then None
      else case filter (\<lambda>k. startswith r (k @ '':''))
                  [''align'', ''position'', ''size'', ''line''] of
             [] \<Rightarrow> None
           | k # _ \<Rightarrow>
               let v = takeWhile (\<lambda>x. \<not> isspace x) (drop (length k + 1) r) in
               if v = [] then None else Some (length ws + length k + 1 + length v))"

definition match_between :: "char \<Rightarrow> char \<Rightarrow> string \<Rightarrow> nat option" where
  \<comment> \<open>\<open><[^>]*>\<close> and \<open>\{[^}]*\}\<close>: an opening character, then up to the first closing one\<close>
  "match_between l r s =
     (case s of [] \<Rightarrow> None
      | c # cs \<Rightarrow>
          if c \<noteq> l then None
          else let body = takeWhile (\<lambda>x. x \<noteq> r) cs in
               if length body < length cs then Some (length body + 2) else None)"

definition match_tag :: "string \<Rightarrow> nat option" where
  "match_tag = match_between (CHR ''<'') (CHR ''>'')"

definition match_brace :: "string \<Rightarrow> nat option" where
  "match_brace = match_between (CHR ''{'') (CHR ''}'')"

definition ascii_letter :: "char \<Rightarrow> bool" where
  \<comment> \<open>the class \<open>[a-zA-Z]\<close>\<close>
  "ascii_letter c =
     (c \<in> set (''abcdefghijklmnopqrstuvwxyz'' @ ''ABCDEFGHIJKLMNOPQRSTUVWXYZ''))"

definition match_entity :: "string \<Rightarrow> nat option" where
  \<comment> \<open>\<open>&[a-zA-Z]+;\<close>\<close>
  "match_entity s =
     (case s of [] \<Rightarrow> None
      | c # cs \<Rightarrow>
          if c \<noteq> CHR ''&'' then None
          else let name = takeWhile ascii_letter cs in
               if name \<noteq> [] \<and> startswith (drop (length name) cs) '';''
               then Some (length name + 2) else None)"

section \<open>Parsers\<close>

text \<open>
  A subtitle entry is the dictionary with the keys \<open>number\<close>, \<open>timestamp\<close> and \<open>text\<close>
  that the parsers build. Reading a file is the parameter \<open>read\<close>: the decoded content of
  the file at a path, \<open>None\<close> when the file cannot be read in either encoding (the parsers
  then return the empty list). The conversion \<open>int(s)\<close> is the parameter \<open>pyint\<close>, \<open>None\<close>
  where \<open>int(s)\<close> raises \<open>ValueError\<close>. What the program prints is not modelled.
\<close>

record subtitle =
  number :: int
  sub_timestamp :: string
  sub_text :: string

definition newline :: string where
  "newline = [CHR 0x0A]"

definition parse_srt_block :: "(string \<Rightarrow> int option) \<Rightarrow> string \<Rightarrow> subtitle list" where
  \<comment> \<open>the body of the loop over the blocks: the entries it appends, none or one\<close>
  "parse_srt_block pyint block =
     (if strip block = [] then []
      else let lines = split newline (strip block) in
        if length lines < 3 then []
        else case pyint (strip (lines ! 0)) of
               None \<Rightarrow> []
             | Some subtitle_num \<Rightarrow>
                 [\<lparr>number = subtitle_num,
                   sub_timestamp = strip (lines ! 1),
                   sub_text = strip (join newline (drop 2 lines))\<rparr>])"

definition parse_srt_content :: "(string \<Rightarrow> int option) \<Rightarrow> string \<Rightarrow> subtitle list" where
  \<comment> \<open>\<open>parse_srt_file\<close> from \<open>content = file.read().strip()\<close> on; the argument is what
      \<open>file.read()\<close> returned\<close>
  "parse_srt_content pyint raw =
     concat (map (parse_srt_block pyint) (re_split match_blank (strip raw)))"

definition parse_srt_file :: "(string \<Rightarrow> int option) \<Rightarrow> (string \<Rightarrow> string option) \<Rightarrow>
    string \<Rightarrow> subtitle list" where
  "parse_srt_file pyint read file_path =
     (case read file_path of None \<Rightarrow> [] | Some raw \<Rightarrow> parse_srt_content pyint raw)"

definition is_header :: "string \<Rightarrow> bool" where
  \<comment> \<open>the test of the loop that skips the header lines\<close>
  "is_header l =
     (let line = strip l in
      startswith line ''WEBVTT'' \<or> startswith line ''NOTE'' \<or> startswith line ''Kind:'' \<or>
      startswith line ''Language:'' \<or> line = [])"

definition clean_timestamp :: "string \<Rightarrow> string" where
  \<comment> \<open>what becomes of the line of a cue's time range\<close>
  "clean_timestamp l = replace ''.'' '','' (re_sub_del match_setting (strip l))"

definition clean_text_line :: "string \<Rightarrow> string" where
  \<comment> \<open>what becomes of a text line of a cue\<close>
  "clean_text_line l =
     re_sub_del match_entity
       (replace ''&nbsp;'' '' '' (re_sub_del match_brace (re_sub_del match_tag (strip l))))"

text \<open>
  The main loop of the VTT parser moves an index forward over the lines; here it recurs on
  the lines from the index on. The inner loop takes the text lines up to the first line
  that is blank once stripped.
\<close>

function vtt_cues :: "int \<Rightarrow> string list \<Rightarrow> subtitle list" where
  "vtt_cues subtitle_num [] = []"
| "vtt_cues subtitle_num (l # rest) =
     (if contains ''-->'' l then
        let text_lines = filter (\<lambda>t. t \<noteq> [])
              (map clean_text_line (takeWhile (\<lambda>x. strip x \<noteq> []) rest))
        in (if text_lines \<noteq> []
            then [\<lparr>number = subtitle_num + 1,
                   sub_timestamp = clean_timestamp l,
                   sub_text = join newline text_lines\<rparr>]
            else [])
           @ vtt_cues (subtitle_num + 1) (dropWhile (\<lambda>x. strip x \<noteq> []) rest)
      else vtt_cues subtitle_num rest)"
  by pat_completeness auto
termination
  by (relation "measure (\<lambda>(n, ls). length ls)")
     (auto simp: length_dropWhile_le less_Suc_eq_le)

definition parse_vtt_content :: "string \<Rightarrow> subtitle list" where
  \<comment> \<open>\<open>parse_vtt_file\<close> from \<open>content = file.read().strip()\<close> on\<close>
  "parse_vtt_content raw =
     vtt_cues 0 (dropWhile is_header (split newline (strip raw)))"

definition parse_vtt_file :: "(string \<Rightarrow> string option) \<Rightarrow> string \<Rightarrow> subtitle list" where
  "parse_vtt_file read file_path =
     (case read file_path of None \<Rightarrow> [] | Some raw \<Rightarrow> parse_vtt_content raw)"

definition splitext_ext :: "string \<Rightarrow> string" where
  \<comment> \<open>\<open>os.path.splitext(p)[1]\<close> of \<open>posixpath\<close>: from the last dot of the last path
      component on, unless only dots stand before it there\<close>
  "splitext_ext p =
     (let name = rev (takeWhile (\<lambda>x. x \<noteq> CHR ''/'') (rev p));
          ext = rev (takeWhile (\<lambda>x. x \<noteq> CHR ''.'') (rev name));
          stem = take (length name - length ext - 1) name
      in if CHR ''.'' \<in> set name \<and> (\<exists>x \<in> set stem. x \<noteq> CHR ''.'') then CHR ''.'' # ext
         else [])"

definition parse_subtitle_file :: "(string \<Rightarrow> int option) \<Rightarrow> (string \<Rightarrow> string option) \<Rightarrow>
    string \<Rightarrow> subtitle list" where
  "parse_subtitle_file pyint read file_path =
     (let file_extension = lower (splitext_ext file_path) in
      if file_extension = ''.srt'' then parse_srt_file pyint read file_path
      else if file_extension = ''.vtt'' then parse_vtt_file read file_path
      else [])"

section \<open>Matches\<close>

text \<open>The dataclass \<open>SubtitleMatch\<close>.\<close>

record SubtitleMatch =
  file_path :: string
  timestamp :: string
  subtitle_number :: int
  text' :: string

section \<open>Deduplication\<close>

text \<open>
  Python's \<open>float\<close> values are modelled as rationals, with exact arithmetic: rounding,
  infinities and NaN are outside the model. The conversion \<open>float(s)\<close> of a string is a
  parameter \<open>pyfloat\<close> of the functions that call it; it returns \<open>None\<close> where
  \<open>float(s)\<close> raises \<open>ValueError\<close>.
\<close>

datatype py_error = ValueError | IndexError

definition index :: "'a list \<Rightarrow> nat \<Rightarrow> py_error + 'a" where
  \<comment> \<open>\<open>xs[i]\<close> for a non-negative index\<close>
  "index xs i = (if i < length xs then Inr (xs ! i) else Inl IndexError)"

definition raising :: "py_error + 'a \<Rightarrow> ('a \<Rightarrow> py_error + 'b) \<Rightarrow> py_error + 'b" where
  \<comment> \<open>a statement that may raise, followed by the rest of the block\<close>
  "raising r k = (case r of Inl e \<Rightarrow> Inl e | Inr v \<Rightarrow> k v)"

definition to_float :: "(string \<Rightarrow> rat option) \<Rightarrow> string \<Rightarrow> py_error + rat" where
  "to_float pyfloat s = (case pyfloat s of None \<Rightarrow> Inl ValueError | Some v \<Rightarrow> Inr v)"

definition text_similarity :: "string \<Rightarrow> string \<Rightarrow> rat" where
  "text_similarity text1 text2 =
     (let words1 = set (split_ws (lower text1));
          words2 = set (split_ws (lower text2))
      in if words1 = {} \<and> words2 = {} then 1
         else if words1 = {} \<or> words2 = {} then 0
         else of_nat (card (words1 \<inter> words2)) / of_nat (card (words1 \<union> words2)))"

definition parse_timestamp_body :: "(string \<Rightarrow> rat option) \<Rightarrow> string \<Rightarrow> py_error + rat" where
  \<comment> \<open>the body of the \<open>try\<close> of \<open>parse_timestamp\<close>\<close>
  "parse_timestamp_body pyfloat ts =
     raising (index (split '' --> '' ts) 0) (\<lambda>start_time.
     let parts = split '':'' (replace '','' ''.'' start_time) in
     raising (index parts 0) (\<lambda>p0. raising (to_float pyfloat p0) (\<lambda>hours.
     raising (index parts 1) (\<lambda>p1. raising (to_float pyfloat p1) (\<lambda>minutes.
     raising (index parts 2) (\<lambda>p2. raising (to_float pyfloat p2) (\<lambda>seconds.
     Inr (hours * 3600 + minutes * 60 + seconds))))))))"

definition parse_timestamp :: "(string \<Rightarrow> rat option) \<Rightarrow> string \<Rightarrow> rat" where
  \<comment> \<open>\<open>try: ... except: return 0.0\<close>\<close>
  "parse_timestamp pyfloat ts =
     (case parse_timestamp_body pyfloat ts of Inl e \<Rightarrow> 0 | Inr v \<Rightarrow> v)"

text \<open>
  The inner loop over \<open>filtered_matches\<close>: it answers \<open>is_duplicate\<close>, leaving at the first
  retained match that makes the candidate a duplicate.
\<close>

fun is_duplicate :: "(string \<Rightarrow> rat option) \<Rightarrow> rat \<Rightarrow> rat \<Rightarrow> bool \<Rightarrow>
    SubtitleMatch \<Rightarrow> SubtitleMatch list \<Rightarrow> bool" where
  "is_duplicate pyfloat similarity_threshold time_window strict_mode current_match [] = False"
| "is_duplicate pyfloat similarity_threshold time_window strict_mode current_match
      (existing_match # rest) =
     (let similarity = text_similarity (text' current_match) (text' existing_match);
          current_time = parse_timestamp pyfloat (timestamp current_match);
          existing_time = parse_timestamp pyfloat (timestamp existing_match);
          time_diff = \<bar>current_time - existing_time\<bar>
      in if strict_mode then
           (if (similarity \<ge> similarity_threshold \<and> time_diff \<le> time_window) \<or>
               (time_diff \<le> 2 \<and> similarity \<ge> 1 / 2)
            then True
            else is_duplicate pyfloat similarity_threshold time_window strict_mode current_match rest)
         else
           (if similarity \<ge> similarity_threshold \<or> time_diff \<le> time_window
            then True
            else is_duplicate pyfloat similarity_threshold time_window strict_mode current_match rest))"

text \<open>The loop over the sorted matches of one file, \<open>filtered_matches\<close> being the state.\<close>

fun filter_matches :: "(string \<Rightarrow> rat option) \<Rightarrow> rat \<Rightarrow> rat \<Rightarrow> bool \<Rightarrow>
    SubtitleMatch list \<Rightarrow> SubtitleMatch list \<Rightarrow> SubtitleMatch list" where
  "filter_matches pyfloat similarity_threshold time_window strict_mode filtered_matches [] =
     filtered_matches"
| "filter_matches pyfloat similarity_threshold time_window strict_mode filtered_matches
      (current_match # rest) =
     (if is_duplicate pyfloat similarity_threshold time_window strict_mode current_match
           filtered_matches
      then filter_matches pyfloat similarity_threshold time_window strict_mode filtered_matches rest
      else filter_matches pyfloat similarity_threshold time_window strict_mode
             (filtered_matches @ [current_match]) rest)"

text \<open>
  The dictionary \<open>file_groups\<close> keeps its keys in insertion order, which the loop over
  \<open>file_groups.items()\<close> follows: it is an association list, a new key going to the end.
\<close>

definition add_match :: "(string \<times> SubtitleMatch list) list \<Rightarrow> SubtitleMatch \<Rightarrow>
    (string \<times> SubtitleMatch list) list" where
  "add_match file_groups m =
     (let file_groups' =
        (if file_path m \<notin> fst ` set file_groups then file_groups @ [(file_path m, [])]
         else file_groups)
      in map (\<lambda>(k, v). if k = file_path m then (k, v @ [m]) else (k, v)) file_groups')"

definition group_by_file :: "SubtitleMatch list \<Rightarrow> (string \<times> SubtitleMatch list) list" where
  "group_by_file matches = foldl add_match [] matches"

definition dedup_file :: "(string \<Rightarrow> rat option) \<Rightarrow> rat \<Rightarrow> rat \<Rightarrow> bool \<Rightarrow>
    SubtitleMatch list \<Rightarrow> SubtitleMatch list" where
  \<comment> \<open>the body of the loop over the file groups; \<open>list.sort\<close> is a stable sort\<close>
  "dedup_file pyfloat similarity_threshold time_window strict_mode file_matches =
     filter_matches pyfloat similarity_threshold time_window strict_mode []
       (sort_key (\<lambda>x. parse_timestamp pyfloat (timestamp x)) file_matches)"

definition deduplicate_matches :: "(string \<Rightarrow> rat option) \<Rightarrow> SubtitleMatch list \<Rightarrow>
    rat \<Rightarrow> rat \<Rightarrow> bool \<Rightarrow> SubtitleMatch list" where
  "deduplicate_matches pyfloat matches similarity_threshold time_window strict_mode =
     (if matches = [] then matches
      else concat (map (\<lambda>(fp, file_matches).
             dedup_file pyfloat similarity_threshold time_window strict_mode file_matches)
           (group_by_file matches)))"

section \<open>Search\<close>

definition matches_in_file :: "string \<Rightarrow> string \<Rightarrow> bool \<Rightarrow> subtitle list \<Rightarrow> SubtitleMatch list" where
  \<comment> \<open>the loop over the subtitles of one file: the matches it appends\<close>
  "matches_in_file path search_term case_sensitive subtitles =
     map (\<lambda>sub. \<lparr>file_path = path, timestamp = sub_timestamp sub,
                  subtitle_number = number sub, text' = sub_text sub\<rparr>)
       (filter (\<lambda>sub.
          let search_text = (if case_sensitive then sub_text sub else lower (sub_text sub));
              term = (if case_sensitive then search_term else lower search_term)
          in contains term search_text) subtitles)"

definition search_in_subtitle_files :: "(string \<Rightarrow> int option) \<Rightarrow> (string \<Rightarrow> rat option) \<Rightarrow>
    (string \<Rightarrow> string option) \<Rightarrow> string list \<Rightarrow> string \<Rightarrow> bool \<Rightarrow> bool \<Rightarrow> rat \<Rightarrow> rat \<Rightarrow> bool \<Rightarrow>
    SubtitleMatch list" where
  "search_in_subtitle_files pyint pyfloat read file_paths search_term case_sensitive
       deduplicate similarity_threshold time_window strict_dedup =
     (let matches = concat (map (\<lambda>path.
            matches_in_file path search_term case_sensitive
              (parse_subtitle_file pyint read path)) file_paths)
      in if deduplicate
         then deduplicate_matches pyfloat matches similarity_threshold time_window strict_dedup
         else matches)"

section \<open>Decimal numerals\<close>

text \<open>
  For the examples, the conversions are given on the plain decimal numerals: an optional
  sign and digits, for \<open>float\<close> with an optional point among them, surrounded by optional
  whitespace. On these strings \<open>int\<close> and \<open>float\<close> return the value computed here (for
  \<open>float\<close>, rounded). The theorems below hold for every conversion.
\<close>

definition digit_of :: "char \<Rightarrow> nat option" where
  "digit_of c = map_of (zip ''0123456789'' [0, 1, 2, 3, 4, 5, 6, 7, 8, 9]) c"

fun digits_value :: "nat \<Rightarrow> string \<Rightarrow> nat option" where
  "digits_value acc [] = Some acc"
| "digits_value acc (c # cs) =
     (case digit_of c of None \<Rightarrow> None | Some d \<Rightarrow> digits_value (10 * acc + d) cs)"

definition unsign :: "string \<Rightarrow> bool \<times> string" where
  "unsign t = (case t of [] \<Rightarrow> (False, [])
               | c # r \<Rightarrow> if c = CHR ''-'' then (True, r)
                          else if c = CHR ''+'' then (False, r) else (False, t))"

definition decimal_int :: "string \<Rightarrow> int option" where
  "decimal_int s =
     (let (neg, u) = unsign (strip s) in
      if u = [] then None
      else case digits_value 0 u of
             None \<Rightarrow> None
           | Some n \<Rightarrow> Some (if neg then - int n else int n))"

definition decimal_float :: "string \<Rightarrow> rat option" where
  "decimal_float s =
     (let (neg, u) = unsign (strip s);
          ip = takeWhile (\<lambda>x. x \<noteq> CHR ''.'') u;
          fp = drop (length ip + 1) u
      in if ip @ fp = [] then None
         else case (digits_value 0 ip, digits_value 0 fp) of
                (Some a, Some b) \<Rightarrow>
                  (let v = of_nat a + of_nat b / 10 ^ length fp in Some (if neg then - v else v))
              | _ \<Rightarrow> None)"

section \<open>Notions of the specification\<close>

definition first_seen :: "'a list \<Rightarrow> 'a list" where
  \<comment> \<open>the elements of a list in the order of their first occurrence\<close>
  "first_seen xs = rev (remdups (rev xs))"

definition start_time :: "(string \<Rightarrow> rat option) \<Rightarrow> SubtitleMatch \<Rightarrow> rat" where
  \<comment> \<open>the parsed start time of a match, the key of the sort\<close>
  "start_time pyfloat m = parse_timestamp pyfloat (timestamp m)"

definition time_distance :: "(string \<Rightarrow> rat option) \<Rightarrow> SubtitleMatch \<Rightarrow> SubtitleMatch \<Rightarrow> rat" where
  "time_distance pyfloat a b = \<bar>start_time pyfloat a - start_time pyfloat b\<bar>"

definition similarity :: "SubtitleMatch \<Rightarrow> SubtitleMatch \<Rightarrow> rat" where
  "similarity a b = text_similarity (text' a) (text' b)"

definition word_set :: "string \<Rightarrow> string set" where
  \<comment> \<open>the lower-cased, whitespace-tokenized word set of a text\<close>
  "word_set t = set (split_ws (lower t))"

text \<open>
  A list that the loop over the sorted matches keeps whole when it starts from the retained
  matches \<open>acc\<close>: no element is a duplicate of what precedes it.
\<close>

fun stable_from :: "(string \<Rightarrow> rat option) \<Rightarrow> rat \<Rightarrow> rat \<Rightarrow> bool \<Rightarrow>
    SubtitleMatch list \<Rightarrow> SubtitleMatch list \<Rightarrow> bool" where
  "stable_from pf thr win strict acc [] = True"
| "stable_from pf thr win strict acc (x # xs) =
     (\<not> is_duplicate pf thr win strict x acc \<and> stable_from pf thr win strict (acc @ [x]) xs)"

fun before :: "string \<Rightarrow> string \<Rightarrow> string" where
  \<comment> \<open>the substring of a string before the first occurrence of \<open>sep\<close>, the whole string
      when \<open>sep\<close> does not occur\<close>
  "before sep [] = []"
| "before sep (c # cs) = (if sep \<noteq> [] \<and> startswith (c # cs) sep then [] else c # before sep cs)"

definition hms_seconds :: "(string \<Rightarrow> rat option) \<Rightarrow> string \<Rightarrow> string \<Rightarrow> rat" where
  \<comment> \<open>the start time as the specification computes it, for a given arrow: the substring
      before the arrow, \<open>,\<close> replaced by \<open>.\<close>, split on \<open>:\<close> into H, M, S (further fields
      ignored), \<open>H*3600 + M*60 + S\<close>; 0 on any failure\<close>
  "hms_seconds pyfloat arrow ts =
     (case split '':'' (replace '','' ''.'' (before arrow ts)) of
        h # m # s # _ \<Rightarrow>
          (case (pyfloat h, pyfloat m, pyfloat s) of
             (Some H, Some M, Some S) \<Rightarrow> H * 3600 + M * 60 + S
           | _ \<Rightarrow> 0)
      | _ \<Rightarrow> 0)"

definition occurrences :: "string \<Rightarrow> string \<Rightarrow> nat" where
  \<comment> \<open>the number of occurrences of a separator in a string, counted from the left without
      overlap, as \<open>str.count\<close> does\<close>
  "occurrences sep s = length (split sep s) - 1"

definition to_match :: "string \<Rightarrow> subtitle \<Rightarrow> SubtitleMatch" where
  \<comment> \<open>the match that carries the fields of an entry as they are, tagged with its file\<close>
  "to_match path sub = \<lparr>file_path = path, timestamp = sub_timestamp sub,
      subtitle_number = number sub, text' = sub_text sub\<rparr>"

definition example_read :: "string \<Rightarrow> string option" where
  \<comment> \<open>a file system with one SRT file of two entries, half a second apart, with one text\<close>
  "example_read p = (if p = ''a.srt''
     then Some ''1\<newline>00:00:01,000 --> 00:00:02,000\<newline>Hi There\<newline>\<newline>2\<newline>00:00:01,500 --> 00:00:02,500\<newline>Hi There''
     else None)"

definition setting_token :: "string \<times> string \<times> string \<Rightarrow> bool" where
  \<comment> \<open>a cue setting as it stands in a line: whitespace, one of the four keys, a colon and a
      non-empty value without whitespace\<close>
  "setting_token t = (case t of (ws, k, v) \<Rightarrow>
     ws \<noteq> [] \<and> list_all isspace ws \<and> k \<in> set [''align'', ''position'', ''size'', ''line''] \<and>
     v \<noteq> [] \<and> list_all (\<lambda>c. \<not> isspace c) v)"

definition token_text :: "string \<times> string \<times> string \<Rightarrow> string" where
  \<comment> \<open>the characters of a cue setting\<close>
  "token_text t = (case t of (ws, k, v) \<Rightarrow> ws @ k @ '':'' @ v)"

definition no_setting_inside :: "string \<Rightarrow> string \<Rightarrow> bool" where
  \<comment> \<open>no cue setting starts at a position of \<open>base\<close> in the line \<open>base @ rest\<close>\<close>
  "no_setting_inside base rest =
     list_all (\<lambda>i. match_setting (drop i (base @ rest)) = None) [0..<length base]"



section \<open>Grouping by file\<close>

lemma first_seen_snoc:
  "first_seen (xs @ [x]) = (if x \<in> set xs then first_seen xs else first_seen xs @ [x])"
  by (simp add: first_seen_def)

lemma set_first_seen: "set (first_seen xs) = set xs"
  by (simp add: first_seen_def)

lemma distinct_first_seen: "distinct (first_seen xs)"
  by (simp add: first_seen_def)

lemma group_by_file_eq:
  "group_by_file ms =
     map (\<lambda>k. (k, filter (\<lambda>m. file_path m = k) ms)) (first_seen (map file_path ms))"
proof (induction ms rule: rev_induct)
  case Nil
  show ?case by (simp add: group_by_file_def first_seen_def)
next
  case (snoc x ms)
  let ?g = "group_by_file ms"
  have step: "group_by_file (ms @ [x]) = add_match ?g x"
    by (simp add: group_by_file_def)
  have keys: "fst ` set ?g = file_path ` set ms"
    by (simp add: snoc.IH image_image set_first_seen)
  show ?case
  proof (cases "file_path x \<in> file_path ` set ms")
    case True
    have "add_match ?g x = map (\<lambda>(k, v). if k = file_path x then (k, v @ [x]) else (k, v)) ?g"
      using True by (simp add: add_match_def keys)
    also have "\<dots> = map (\<lambda>k. (k, filter (\<lambda>m. file_path m = k) (ms @ [x])))
                       (first_seen (map file_path ms))"
      by (simp add: snoc.IH)
    finally show ?thesis
      using True by (simp add: step first_seen_snoc)
  next
    case False
    then have "\<forall>m \<in> set ms. file_path m \<noteq> file_path x" by (metis imageI)
    then have e: "filter (\<lambda>m. file_path m = file_path x) ms = []" by (simp add: filter_empty_conv)
    have "add_match ?g x =
       map (\<lambda>(k, v). if k = file_path x then (k, v @ [x]) else (k, v)) (?g @ [(file_path x, [])])"
      using False by (simp add: add_match_def keys)
    also have "\<dots> = map (\<lambda>k. (k, filter (\<lambda>m. file_path m = k) (ms @ [x])))
                       (first_seen (map file_path ms) @ [file_path x])"
      by (simp add: snoc.IH e)
    finally show ?thesis
      using False by (simp add: step first_seen_snoc)
  qed
qed

lemma deduplicate_matches_eq:
  "deduplicate_matches pf ms thr win strict =
     concat (map (\<lambda>k. dedup_file pf thr win strict (filter (\<lambda>m. file_path m = k) ms))
                 (first_seen (map file_path ms)))"
  by (cases "ms = []")
     (simp_all add: deduplicate_matches_def group_by_file_eq first_seen_def comp_def)

section \<open>The duplicate decision\<close>

lemma is_duplicate_strict:
  "is_duplicate pf thr win True cur retained \<longleftrightarrow>
     (\<exists>ex \<in> set retained.
        (similarity cur ex \<ge> thr \<and> time_distance pf cur ex \<le> win) \<or>
        (time_distance pf cur ex \<le> 2 \<and> similarity cur ex \<ge> 1 / 2))"
  by (induction retained)
     (auto simp add: Let_def similarity_def time_distance_def start_time_def)

lemma is_duplicate_aggressive:
  "is_duplicate pf thr win False cur retained \<longleftrightarrow>
     (\<exists>ex \<in> set retained. similarity cur ex \<ge> thr \<or> time_distance pf cur ex \<le> win)"
  by (induction retained)
     (auto simp add: Let_def similarity_def time_distance_def start_time_def)

text \<open>
  Claim C2. The inner loop judges the candidate a duplicate exactly when some retained
  match of the file satisfies, in strict mode, (similarity at least the threshold and time
  distance at most the window) or (time distance at most 2 and similarity at least 1/2),
  and in aggressive mode, similarity at least the threshold or time distance at most the
  window. All comparisons are inclusive: a retained match at exactly the threshold and
  exactly the window makes the candidate a duplicate in both modes.
\<close>

theorem duplicate_decision:
  "(is_duplicate pf thr win True cur retained \<longleftrightarrow>
      (\<exists>ex \<in> set retained.
         (similarity cur ex \<ge> thr \<and> time_distance pf cur ex \<le> win) \<or>
         (time_distance pf cur ex \<le> 2 \<and> similarity cur ex \<ge> 1 / 2))) \<and>
   (is_duplicate pf thr win False cur retained \<longleftrightarrow>
      (\<exists>ex \<in> set retained. similarity cur ex \<ge> thr \<or> time_distance pf cur ex \<le> win)) \<and>
   (similarity cur ex = thr \<and> time_distance pf cur ex = win \<longrightarrow>
      is_duplicate pf thr win strict cur [ex])"
proof (intro conjI impI)
  show "is_duplicate pf thr win True cur retained \<longleftrightarrow>
      (\<exists>ex \<in> set retained.
         (similarity cur ex \<ge> thr \<and> time_distance pf cur ex \<le> win) \<or>
         (time_distance pf cur ex \<le> 2 \<and> similarity cur ex \<ge> 1 / 2))"
    by (rule is_duplicate_strict)
  show "is_duplicate pf thr win False cur retained \<longleftrightarrow>
      (\<exists>ex \<in> set retained. similarity cur ex \<ge> thr \<or> time_distance pf cur ex \<le> win)"
    by (rule is_duplicate_aggressive)
  assume "similarity cur ex = thr \<and> time_distance pf cur ex = win"
  then show "is_duplicate pf thr win strict cur [ex]"
    by (cases strict)
       (auto simp add: Let_def similarity_def time_distance_def start_time_def)
qed

theorem duplicate_decision_witness:
  "similarity
     \<lparr>file_path = ''a.vtt'', timestamp = ''00:00:40,000 --> 00:00:42,000'',
      subtitle_number = 2, text' = ''the cat RAN''\<rparr>
     \<lparr>file_path = ''a.vtt'', timestamp = ''00:00:10,000 --> 00:00:12,000'',
      subtitle_number = 1, text' = ''The cat sat''\<rparr> = 1 / 2 \<and>
   time_distance decimal_float
     \<lparr>file_path = ''a.vtt'', timestamp = ''00:00:40,000 --> 00:00:42,000'',
      subtitle_number = 2, text' = ''the cat RAN''\<rparr>
     \<lparr>file_path = ''a.vtt'', timestamp = ''00:00:10,000 --> 00:00:12,000'',
      subtitle_number = 1, text' = ''The cat sat''\<rparr> = 30 \<and>
   is_duplicate decimal_float (1 / 2) 30 True
     \<lparr>file_path = ''a.vtt'', timestamp = ''00:00:40,000 --> 00:00:42,000'',
      subtitle_number = 2, text' = ''the cat RAN''\<rparr>
     [\<lparr>file_path = ''a.vtt'', timestamp = ''00:00:10,000 --> 00:00:12,000'',
       subtitle_number = 1, text' = ''The cat sat''\<rparr>] \<and>
   is_duplicate decimal_float (1 / 2) 30 False
     \<lparr>file_path = ''a.vtt'', timestamp = ''00:00:40,000 --> 00:00:42,000'',
      subtitle_number = 2, text' = ''the cat RAN''\<rparr>
     [\<lparr>file_path = ''a.vtt'', timestamp = ''00:00:10,000 --> 00:00:12,000'',
       subtitle_number = 1, text' = ''The cat sat''\<rparr>]"
proof -
  let ?cur = "\<lparr>file_path = ''a.vtt'', timestamp = ''00:00:40,000 --> 00:00:42,000'',
      subtitle_number = 2, text' = ''the cat RAN''\<rparr>"
  let ?ex = "\<lparr>file_path = ''a.vtt'', timestamp = ''00:00:10,000 --> 00:00:12,000'',
      subtitle_number = 1, text' = ''The cat sat''\<rparr>"
  have s: "similarity ?cur ?ex = 1 / 2" by code_simp
  have t: "time_distance decimal_float ?cur ?ex = 30" by code_simp
  from s t duplicate_decision [of decimal_float "1 / 2" 30 ?cur "[]" ?ex True]
  have a: "is_duplicate decimal_float (1 / 2) 30 True ?cur [?ex]" by blast
  from s t duplicate_decision [of decimal_float "1 / 2" 30 ?cur "[]" ?ex False]
  have b: "is_duplicate decimal_float (1 / 2) 30 False ?cur [?ex]" by blast
  from s t a b show ?thesis by blast
qed

section \<open>Text similarity\<close>

text \<open>
  Claim C7. The similarity of two texts is the Jaccard index of their lower-cased,
  whitespace-tokenized word sets: the size of the intersection divided by the size of the
  union. It is 1 when both word sets are empty and 0 when exactly one is empty.
\<close>

theorem text_similarity_jaccard:
  "(word_set t1 = {} \<and> word_set t2 = {} \<longrightarrow> text_similarity t1 t2 = 1) \<and>
   ((word_set t1 = {}) \<noteq> (word_set t2 = {}) \<longrightarrow> text_similarity t1 t2 = 0) \<and>
   (word_set t1 \<noteq> {} \<and> word_set t2 \<noteq> {} \<longrightarrow>
      text_similarity t1 t2 =
        of_nat (card (word_set t1 \<inter> word_set t2)) / of_nat (card (word_set t1 \<union> word_set t2)))"
  unfolding text_similarity_def word_set_def Let_def by auto

theorem text_similarity_jaccard_witness:
  "word_set '''' = {} \<and> word_set ''  '' = {} \<and> text_similarity '''' ''  '' = 1 \<and>
   word_set ''Hello'' \<noteq> {} \<and> text_similarity '''' ''Hello'' = 0 \<and>
   word_set ''The cat sat'' \<noteq> {} \<and> word_set ''the cat RAN'' \<noteq> {} \<and>
   card (word_set ''The cat sat'' \<inter> word_set ''the cat RAN'') = 2 \<and>
   card (word_set ''The cat sat'' \<union> word_set ''the cat RAN'') = 4 \<and>
   text_similarity ''The cat sat'' ''the cat RAN'' = 2 / 4"
proof -
  have e1: "word_set '''' = {}" by code_simp
  have e2: "word_set ''  '' = {}" by code_simp
  have n1: "word_set ''Hello'' \<noteq> {}" by code_simp
  have n2: "word_set ''The cat sat'' \<noteq> {}" by code_simp
  have n3: "word_set ''the cat RAN'' \<noteq> {}" by code_simp
  have c1: "card (word_set ''The cat sat'' \<inter> word_set ''the cat RAN'') = 2" by code_simp
  have c2: "card (word_set ''The cat sat'' \<union> word_set ''the cat RAN'') = 4" by code_simp
  have a: "text_similarity '''' ''  '' = 1"
    using text_similarity_jaccard [of "''''" "''  ''"] e1 e2 by blast
  have b: "text_similarity '''' ''Hello'' = 0"
    using text_similarity_jaccard [of "''''" "''Hello''"] e1 n1 by blast
  have c: "text_similarity ''The cat sat'' ''the cat RAN'' = 2 / 4"
    using text_similarity_jaccard [of "''The cat sat''" "''the cat RAN''"] n2 n3 c1 c2
    by simp
  from e1 e2 n1 n2 n3 c1 c2 a b c show ?thesis by blast
qed

section \<open>The loop over the matches of one file\<close>

lemma filter_matches_stable:
  "stable_from pf thr win strict acc xs \<Longrightarrow> filter_matches pf thr win strict acc xs = acc @ xs"
  by (induction xs arbitrary: acc) auto

lemma filter_matches_result:
  "\<exists>ys. filter_matches pf thr win strict acc xs = acc @ ys \<and>
        stable_from pf thr win strict acc ys \<and> set ys \<subseteq> set xs \<and>
        (sorted (map f xs) \<longrightarrow> sorted (map f ys)) \<and>
        (acc = [] \<and> xs \<noteq> [] \<longrightarrow> ys \<noteq> [])"
proof (induction xs arbitrary: acc)
  case Nil
  show ?case by simp
next
  case (Cons x xs)
  show ?case
  proof (cases "is_duplicate pf thr win strict x acc")
    case True
    then have "acc \<noteq> []" by (cases acc) auto
    with True Cons.IH [of acc] show ?thesis by auto
  next
    case False
    from Cons.IH [of "acc @ [x]"] obtain ys where
      ys: "filter_matches pf thr win strict (acc @ [x]) xs = (acc @ [x]) @ ys"
        "stable_from pf thr win strict (acc @ [x]) ys" "set ys \<subseteq> set xs"
        "sorted (map f xs) \<longrightarrow> sorted (map f ys)"
      by blast
    have "filter_matches pf thr win strict acc (x # xs) = acc @ (x # ys)"
      using False ys(1) by simp
    moreover have "stable_from pf thr win strict acc (x # ys)"
      using False ys(2) by simp
    moreover have "set (x # ys) \<subseteq> set (x # xs)" using ys(3) by auto
    moreover have "sorted (map f (x # xs)) \<longrightarrow> sorted (map f (x # ys))"
      using ys(3,4) by auto
    ultimately show ?thesis by blast
  qed
qed

lemma dedup_file_props:
  "set (dedup_file pf thr win strict g) \<subseteq> set g"
  "sorted (map (start_time pf) (dedup_file pf thr win strict g))"
  "g \<noteq> [] \<Longrightarrow> dedup_file pf thr win strict g \<noteq> []"
  "dedup_file pf thr win strict (dedup_file pf thr win strict g) = dedup_file pf thr win strict g"
proof -
  let ?key = "\<lambda>x. parse_timestamp pf (timestamp x)"
  let ?s = "sort_key ?key g"
  have keq: "start_time pf = ?key" by (simp add: start_time_def fun_eq_iff)
  from filter_matches_result [of pf thr win strict "[]" ?s ?key] obtain ys where
    ys: "filter_matches pf thr win strict [] ?s = ys" "stable_from pf thr win strict [] ys"
      "set ys \<subseteq> set ?s" "sorted (map ?key ?s) \<longrightarrow> sorted (map ?key ys)"
      "?s \<noteq> [] \<longrightarrow> ys \<noteq> []"
    by auto
  have d: "dedup_file pf thr win strict g = ys" by (simp add: dedup_file_def ys(1))
  show "set (dedup_file pf thr win strict g) \<subseteq> set g" using ys(3) d by simp
  have srt: "sorted (map ?key ys)" using ys(4) by simp
  then show "sorted (map (start_time pf) (dedup_file pf thr win strict g))" by (simp add: d keq)
  have "sort_key ?key ys = ys" using srt by (rule sort_key_id_if_sorted)
  then show "dedup_file pf thr win strict (dedup_file pf thr win strict g) = dedup_file pf thr win strict g"
    using filter_matches_stable [OF ys(2)] by (simp add: d) (simp add: dedup_file_def)
  show "g \<noteq> [] \<Longrightarrow> dedup_file pf thr win strict g \<noteq> []"
  proof -
    assume "g \<noteq> []"
    then have "?s \<noteq> []" by (metis length_sort list.size(3) length_0_conv)
    with ys(5) d show ?thesis by simp
  qed
qed

section \<open>First occurrences and groups\<close>


lemma first_seen_const:
  "xs \<noteq> [] \<Longrightarrow> \<forall>x \<in> set xs. x = k \<Longrightarrow> first_seen xs = [k]"
proof (induction xs rule: rev_induct)
  case Nil
  then show ?case by simp
next
  case (snoc x xs)
  show ?case
  proof (cases "xs = []")
    case True
    with snoc.prems show ?thesis by (simp add: first_seen_def)
  next
    case False
    with snoc have "first_seen xs = [k]" by simp
    moreover have "x \<in> set xs" using False snoc.prems(2) by (cases xs) auto
    ultimately show ?thesis by (simp add: first_seen_snoc)
  qed
qed


lemma filter_concat_groups:
  assumes "distinct ks" "\<forall>k \<in> set ks. \<forall>m \<in> set (F k). g m = k"
  shows "filter (\<lambda>m. g m = k) (concat (map F ks)) = (if k \<in> set ks then F k else [])"
  using assms
proof (induction ks)
  case Nil
  show ?case by simp
next
  case (Cons a ks)
  have ih: "filter (\<lambda>m. g m = k) (concat (map F ks)) = (if k \<in> set ks then F k else [])"
    using Cons by simp
  have fa: "filter (\<lambda>m. g m = k) (F a) = (if a = k then F a else [])"
    using Cons.prems(2) by (auto simp add: filter_id_conv filter_empty_conv)
  show ?case
    using Cons.prems(1) by (auto simp add: ih fa)
qed

section \<open>Deduplication file by file\<close>

lemma dedup_group_props:
  "\<forall>k \<in> set (first_seen (map file_path ms)).
      dedup_file pf thr win strict (filter (\<lambda>m. file_path m = k) ms) \<noteq> [] \<and>
      (\<forall>m \<in> set (dedup_file pf thr win strict (filter (\<lambda>m. file_path m = k) ms)).
          file_path m = k)"
proof
  fix k assume "k \<in> set (first_seen (map file_path ms))"
  then have "k \<in> file_path ` set ms" by (simp add: set_first_seen)
  then obtain m where m: "m \<in> set ms" "file_path m = k" by blast
  let ?g = "filter (\<lambda>m. file_path m = k) ms"
  let ?d = "dedup_file pf thr win strict ?g"
  from m have "m \<in> set ?g" by simp
  then have ne: "?g \<noteq> []" by (cases ?g) simp_all
  have a: "?d \<noteq> []" using ne by (rule dedup_file_props(3))
  have "set ?d \<subseteq> set ?g" by (rule dedup_file_props(1))
  then have b: "\<forall>m \<in> set ?d. file_path m = k" by auto
  from a b show "?d \<noteq> [] \<and> (\<forall>m \<in> set ?d. file_path m = k)" by (rule conjI)
qed

lemma dedup_file_Nil: "dedup_file pf thr win strict [] = []"
  by (simp add: dedup_file_def)

lemma dedup_filter_file:
  "filter (\<lambda>m. file_path m = k) (deduplicate_matches pf ms thr win strict) =
     dedup_file pf thr win strict (filter (\<lambda>m. file_path m = k) ms)"
proof -
  let ?ks = "first_seen (map file_path ms)"
  let ?D = "\<lambda>k. dedup_file pf thr win strict (filter (\<lambda>m. file_path m = k) ms)"
  have p: "\<forall>k \<in> set ?ks. \<forall>m \<in> set (?D k). file_path m = k"
    using dedup_group_props [of ms pf thr win strict] by blast
  have "filter (\<lambda>m. file_path m = k) (concat (map ?D ?ks)) = (if k \<in> set ?ks then ?D k else [])"
    using distinct_first_seen p
    by (rule filter_concat_groups [where F = ?D and g = file_path and ks = ?ks])
  moreover have "k \<notin> set ?ks \<longrightarrow> ?D k = []"
  proof
    assume "k \<notin> set ?ks"
    then have "filter (\<lambda>m. file_path m = k) ms = []"
      by (auto simp add: set_first_seen filter_empty_conv)
    then show "?D k = []" by (simp add: dedup_file_Nil)
  qed
  moreover have "deduplicate_matches pf ms thr win strict = concat (map ?D ?ks)"
    by (rule deduplicate_matches_eq)
  ultimately show ?thesis by presburger
qed





lemma dedup_independent:
  "filter (\<lambda>m. file_path m = k) (deduplicate_matches pf ms thr win strict) =
     deduplicate_matches pf (filter (\<lambda>m. file_path m = k) ms) thr win strict"
proof (cases "filter (\<lambda>m. file_path m = k) ms = []")
  case True
  have "deduplicate_matches pf [] thr win strict = []"
    by (simp add: deduplicate_matches_def)
  then show ?thesis
    by (simp only: dedup_filter_file True dedup_file_Nil)
next
  case False
  let ?g = "filter (\<lambda>m. file_path m = k) ms"
  have "first_seen (map file_path ?g) = [k]"
    using False by (intro first_seen_const) auto
  then have "deduplicate_matches pf ?g thr win strict = dedup_file pf thr win strict ?g"
    by (simp add: deduplicate_matches_eq)
  then show ?thesis by (simp add: dedup_filter_file)
qed

lemma dedup_two_files:
  "file_path a \<noteq> file_path b \<Longrightarrow> deduplicate_matches pf [a, b] thr win strict = [a, b]"
  by (simp add: deduplicate_matches_def group_by_file_def add_match_def dedup_file_def)

section \<open>Order, isolation and idempotence of the deduplication\<close>




text \<open>
  Claim C6. Matches of different files are never compared: the surviving matches of a file
  are what the deduplication of that file's matches alone gives, so a match is never
  removed because of a match of another file. Two matches of different files both survive,
  also with the same text and the same timestamp.
\<close>

theorem deduplicate_cross_file:
  "filter (\<lambda>m. file_path m = k) (deduplicate_matches pf ms thr win strict) =
     deduplicate_matches pf (filter (\<lambda>m. file_path m = k) ms) thr win strict \<and>
   (file_path a \<noteq> file_path b \<longrightarrow> deduplicate_matches pf [a, b] thr win strict = [a, b])"
  using dedup_independent [of k pf ms thr win strict] dedup_two_files [of a b pf thr win strict]
  by blast

theorem deduplicate_cross_file_witness:
  "file_path \<lparr>file_path = ''a.srt'', timestamp = ''00:00:01,000 --> 00:00:02,000'',
      subtitle_number = 1, text' = ''hello there''\<rparr> \<noteq>
   file_path \<lparr>file_path = ''b.srt'', timestamp = ''00:00:01,000 --> 00:00:02,000'',
      subtitle_number = 1, text' = ''hello there''\<rparr> \<and>
   deduplicate_matches decimal_float
     [\<lparr>file_path = ''a.srt'', timestamp = ''00:00:01,000 --> 00:00:02,000'',
       subtitle_number = 1, text' = ''hello there''\<rparr>,
      \<lparr>file_path = ''b.srt'', timestamp = ''00:00:01,000 --> 00:00:02,000'',
       subtitle_number = 1, text' = ''hello there''\<rparr>] (4 / 5) 30 True =
     [\<lparr>file_path = ''a.srt'', timestamp = ''00:00:01,000 --> 00:00:02,000'',
       subtitle_number = 1, text' = ''hello there''\<rparr>,
      \<lparr>file_path = ''b.srt'', timestamp = ''00:00:01,000 --> 00:00:02,000'',
       subtitle_number = 1, text' = ''hello there''\<rparr>]"
proof -
  let ?a = "\<lparr>file_path = ''a.srt'', timestamp = ''00:00:01,000 --> 00:00:02,000'',
      subtitle_number = 1, text' = ''hello there''\<rparr>"
  let ?b = "\<lparr>file_path = ''b.srt'', timestamp = ''00:00:01,000 --> 00:00:02,000'',
      subtitle_number = 1, text' = ''hello there''\<rparr>"
  have d: "file_path ?a \<noteq> file_path ?b" by simp
  with deduplicate_cross_file [of "''a.srt''" decimal_float "[]" "4 / 5" 30 True ?a ?b]
  have "deduplicate_matches decimal_float [?a, ?b] (4 / 5) 30 True = [?a, ?b]" by blast
  with d show ?thesis by blast
qed



section \<open>The start time of a match\<close>

lemma split_acc_first: "\<exists>rest. split_acc sep acc s = (rev acc @ before sep s) # rest"
  by (induction sep acc s rule: split_acc.induct) auto

lemma index_split_0: "index (split sep ts) 0 = Inr (before sep ts)"
  using split_acc_first [of sep "[]" ts] by (auto simp add: split_def index_def)

lemma parse_timestamp_hms: "parse_timestamp pf ts = hms_seconds pf '' --> '' ts"
  unfolding parse_timestamp_def parse_timestamp_body_def hms_seconds_def index_split_0
  by (auto simp add: raising_def index_def to_float_def Let_def
      split: list.splits option.splits sum.splits)

text \<open>
  Claim C3, as the specification states it, takes the substring before \<open>-->\<close>. The program
  splits at the arrow with a space on each side: a timestamp whose arrow has no spaces
  around it is not cut, its third field does not convert, and the start time is 0, where
  the substring before \<open>-->\<close> gives 1 second.
\<close>

theorem parse_timestamp_arrow_counterexample:
  "parse_timestamp decimal_float ''00:00:01,000-->00:00:02,000'' = 0 \<and>
   hms_seconds decimal_float ''-->'' ''00:00:01,000-->00:00:02,000'' = 1"
  by code_simp

text \<open>
  Claim C3, amended. The start time of a match is computed from the substring of its
  timestamp before the first arrow that has a space on each side (the whole timestamp when
  there is none): \<open>,\<close> is replaced by \<open>.\<close>, the result is split on \<open>:\<close>, the first three
  fields are converted to H, M and S, and the start time is \<open>H*3600 + M*60 + S\<close>. When a
  field is missing or does not convert, the start time is 0: every exception raised in the
  computation is caught there.
\<close>

theorem parse_timestamp_start_time:
  "parse_timestamp pf ts = hms_seconds pf '' --> '' ts \<and>
   (\<forall>e. parse_timestamp_body pf ts = Inl e \<longrightarrow> parse_timestamp pf ts = 0)"
  using parse_timestamp_hms [of pf ts] by (simp add: parse_timestamp_def)

theorem parse_timestamp_start_time_witness:
  "hms_seconds decimal_float '' --> '' ''00:01:01,500 --> 00:01:02,000'' = 123 / 2 \<and>
   parse_timestamp decimal_float ''00:01:01,500 --> 00:01:02,000'' = 123 / 2 \<and>
   parse_timestamp_body decimal_float ''12:30'' = Inl IndexError \<and>
   parse_timestamp decimal_float ''12:30'' = 0 \<and>
   parse_timestamp_body decimal_float ''00:xx:01 --> 00:00:02'' = Inl ValueError \<and>
   parse_timestamp decimal_float ''00:xx:01 --> 00:00:02'' = 0"
proof -
  have a: "hms_seconds decimal_float '' --> '' ''00:01:01,500 --> 00:01:02,000'' = 123 / 2"
    by code_simp
  have b: "parse_timestamp_body decimal_float ''12:30'' = Inl IndexError" by code_simp
  have c: "parse_timestamp_body decimal_float ''00:xx:01 --> 00:00:02'' = Inl ValueError"
    by code_simp
  from a parse_timestamp_start_time [of decimal_float "''00:01:01,500 --> 00:01:02,000''"]
  have a': "parse_timestamp decimal_float ''00:01:01,500 --> 00:01:02,000'' = 123 / 2" by simp
  from b parse_timestamp_start_time [of decimal_float "''12:30''"]
  have b': "parse_timestamp decimal_float ''12:30'' = 0" by blast
  from c parse_timestamp_start_time [of decimal_float "''00:xx:01 --> 00:00:02''"]
  have c': "parse_timestamp decimal_float ''00:xx:01 --> 00:00:02'' = 0" by blast
  from a a' b b' c c' show ?thesis by blast
qed

section \<open>SRT blocks\<close>

lemma split_Nil: "split sep [] = [[]]"
  by (simp add: split_def)

text \<open>
  Claim C4, as the specification states it, has the time range equal to line 2 verbatim.
  The program strips line 2: in a block whose first line is an integer and whose second
  line has a space at each end, the time range of the entry is not the second line.
\<close>

theorem srt_time_range_verbatim_counterexample:
  "length (split newline (strip ''1\<newline> 00:00:01,000 --> 00:00:02,000 \<newline>Hello\<newline>world'')) = 4 \<and>
   decimal_int (strip (split newline
      (strip ''1\<newline> 00:00:01,000 --> 00:00:02,000 \<newline>Hello\<newline>world'') ! 0)) = Some 1 \<and>
   split newline (strip ''1\<newline> 00:00:01,000 --> 00:00:02,000 \<newline>Hello\<newline>world'') ! 1 =
     '' 00:00:01,000 --> 00:00:02,000 '' \<and>
   map sub_timestamp
     (parse_srt_block decimal_int ''1\<newline> 00:00:01,000 --> 00:00:02,000 \<newline>Hello\<newline>world'') =
     [''00:00:01,000 --> 00:00:02,000'']"
  by code_simp

text \<open>
  Claim C4, amended. For every block that, once stripped, has at least 3 lines and whose
  first line, stripped, converts to an integer, the parser yields exactly one entry: its
  number is that integer, its text is the lines from the third on joined by newlines and
  stripped, and its time range is line 2 with the whitespace at its ends removed.
\<close>

theorem parse_srt_block_well_formed:
  assumes "lines = split newline (strip block)" and "3 \<le> length lines"
    and "pyint (strip (lines ! 0)) = Some n"
  shows "parse_srt_block pyint block =
     [\<lparr>number = n, sub_timestamp = strip (lines ! 1),
       sub_text = strip (join newline (drop 2 lines))\<rparr>]"
proof -
  have "strip block \<noteq> []"
  proof
    assume "strip block = []"
    with assms(1) have "lines = [[]]" by (simp add: split_Nil)
    with assms(2) show False by simp
  qed
  with assms show ?thesis by (simp add: parse_srt_block_def Let_def)
qed

theorem parse_srt_block_well_formed_witness:
  "split newline (strip ''7\<newline> 00:00:01,000 --> 00:00:02,000 \<newline>Hello\<newline>world  '') =
     [''7'', '' 00:00:01,000 --> 00:00:02,000 '', ''Hello'', ''world''] \<and>
   decimal_int (strip ''7'') = Some 7 \<and>
   strip '' 00:00:01,000 --> 00:00:02,000 '' = ''00:00:01,000 --> 00:00:02,000'' \<and>
   strip (join newline [''Hello'', ''world'']) = ''Hello\<newline>world'' \<and>
   parse_srt_block decimal_int ''7\<newline> 00:00:01,000 --> 00:00:02,000 \<newline>Hello\<newline>world  '' =
     [\<lparr>number = 7, sub_timestamp = ''00:00:01,000 --> 00:00:02,000'',
       sub_text = ''Hello\<newline>world''\<rparr>]"
proof -
  let ?b = "''7\<newline> 00:00:01,000 --> 00:00:02,000 \<newline>Hello\<newline>world  ''"
  let ?ls = "[''7'', '' 00:00:01,000 --> 00:00:02,000 '', ''Hello'', ''world'']"
  have l: "split newline (strip ?b) = ?ls" by code_simp
  have i: "decimal_int (strip ''7'') = Some 7" by code_simp
  have t: "strip '' 00:00:01,000 --> 00:00:02,000 '' = ''00:00:01,000 --> 00:00:02,000''"
    by code_simp
  have x: "strip (join newline [''Hello'', ''world'']) = ''Hello\<newline>world''" by code_simp
  have "parse_srt_block decimal_int ?b =
     [\<lparr>number = 7, sub_timestamp = strip (?ls ! 1),
       sub_text = strip (join newline (drop 2 ?ls))\<rparr>]"
    using i by (intro parse_srt_block_well_formed) (simp_all add: l)
  with l i t x show ?thesis by simp
qed

section \<open>Where the time range of an entry comes from\<close>

lemma vtt_cues_source:
  "\<forall>cue \<in> set (vtt_cues n ls).
     \<exists>l \<in> set ls. contains ''-->'' l \<and> sub_timestamp cue = clean_timestamp l"
proof (induction n ls rule: vtt_cues.induct)
  case (1 n)
  show ?case by simp
next
  case (2 n l rest)
  show ?case
  proof (cases "contains ''-->'' l")
    case True
    have sub: "set (dropWhile (\<lambda>x. strip x \<noteq> []) rest) \<subseteq> set rest"
      by (auto dest: set_dropWhileD)
    from 2(1) [OF True refl] sub True show ?thesis
      by (auto simp add: Let_def)
  next
    case False
    with 2(2) show ?thesis by auto
  qed
qed

lemma parse_vtt_content_source:
  "\<forall>cue \<in> set (parse_vtt_content raw).
     \<exists>l \<in> set (split newline (strip raw)). contains ''-->'' l \<and> sub_timestamp cue = clean_timestamp l"
proof
  fix cue assume "cue \<in> set (parse_vtt_content raw)"
  then obtain l where l: "l \<in> set (dropWhile is_header (split newline (strip raw)))"
      "contains ''-->'' l" "sub_timestamp cue = clean_timestamp l"
    using vtt_cues_source [of 0 "dropWhile is_header (split newline (strip raw))"]
    unfolding parse_vtt_content_def by blast
  from l(1) have "l \<in> set (split newline (strip raw))" by (rule set_dropWhileD)
  with l(2,3) show "\<exists>l \<in> set (split newline (strip raw)). contains ''-->'' l \<and> sub_timestamp cue = clean_timestamp l"
    by blast
qed

lemma parse_srt_block_source:
  assumes "cue \<in> set (parse_srt_block pyint block)"
  shows "3 \<le> length (split newline (strip block)) \<and>
       pyint (strip (split newline (strip block) ! 0)) = Some (number cue) \<and>
       sub_timestamp cue = strip (split newline (strip block) ! 1)"
  using assms
  by (auto simp add: parse_srt_block_def Let_def split: if_splits option.splits)

lemma parse_srt_content_source:
  "\<forall>cue \<in> set (parse_srt_content pyint raw).
     \<exists>block \<in> set (re_split match_blank (strip raw)).
       3 \<le> length (split newline (strip block)) \<and>
       pyint (strip (split newline (strip block) ! 0)) = Some (number cue) \<and>
       sub_timestamp cue = strip (split newline (strip block) ! 1)"
proof
  fix cue assume "cue \<in> set (parse_srt_content pyint raw)"
  then obtain block where "block \<in> set (re_split match_blank (strip raw))"
      "cue \<in> set (parse_srt_block pyint block)"
    by (auto simp add: parse_srt_content_def)
  then show "\<exists>block \<in> set (re_split match_blank (strip raw)).
       3 \<le> length (split newline (strip block)) \<and>
       pyint (strip (split newline (strip block) ! 0)) = Some (number cue) \<and>
       sub_timestamp cue = strip (split newline (strip block) ! 1)"
    using parse_srt_block_source by blast
qed

text \<open>
  Claim C1, as the specification states it, fails for both parsers. The SRT parser takes
  the second line of a block as the time range without looking for an arrow: a block with
  an integer, a line without arrow and a text line gives an entry whose time range has no
  arrow. The VTT parser starts a cue at every line that contains an arrow, also when it
  contains two.
\<close>

theorem time_range_one_arrow_counterexample:
  "parse_srt_content decimal_int ''1\<newline>foo\<newline>bar'' =
     [\<lparr>number = 1, sub_timestamp = ''foo'', sub_text = ''bar''\<rparr>] \<and>
   occurrences ''-->'' ''foo'' = 0 \<and>
   parse_vtt_content ''WEBVTT\<newline>\<newline>a --> b --> c\<newline>t'' =
     [\<lparr>number = 1, sub_timestamp = ''a --> b --> c'', sub_text = ''t''\<rparr>] \<and>
   occurrences ''-->'' ''a --> b --> c'' = 2"
  by code_simp

text \<open>
  Claim C1, amended. Every entry produced by the VTT parser has as its time range the
  cleaned form (stripped, cue settings removed, \<open>.\<close> replaced by \<open>,\<close>) of a line of the
  file that contains \<open>-->\<close>: a line without arrow never starts an entry. Every entry
  produced by the SRT parser comes from a block that, once stripped, has at least 3 lines
  and whose first line converts to the entry's number; its time range is the stripped
  second line of that block, whatever it contains. Other blocks yield no entry.
\<close>

theorem time_range_source:
  "(\<forall>cue \<in> set (parse_vtt_content raw).
      \<exists>l \<in> set (split newline (strip raw)).
        contains ''-->'' l \<and> sub_timestamp cue = clean_timestamp l) \<and>
   (\<forall>cue \<in> set (parse_srt_content pyint raw').
      \<exists>block \<in> set (re_split match_blank (strip raw')).
        3 \<le> length (split newline (strip block)) \<and>
        pyint (strip (split newline (strip block) ! 0)) = Some (number cue) \<and>
        sub_timestamp cue = strip (split newline (strip block) ! 1))"
  using parse_vtt_content_source [of raw] parse_srt_content_source [of pyint raw']
  by (rule conjI)

theorem time_range_source_witness:
  "parse_vtt_content ''WEBVTT\<newline>\<newline>00:00:01.000 --> 00:00:04.000 align:start\<newline>Hello'' =
     [\<lparr>number = 1, sub_timestamp = ''00:00:01,000 --> 00:00:04,000'', sub_text = ''Hello''\<rparr>] \<and>
   (\<exists>l \<in> set (split newline
        (strip ''WEBVTT\<newline>\<newline>00:00:01.000 --> 00:00:04.000 align:start\<newline>Hello'')).
      contains ''-->'' l \<and> ''00:00:01,000 --> 00:00:04,000'' = clean_timestamp l) \<and>
   parse_srt_content decimal_int ''x\<newline>y\<newline>z\<newline>\<newline>5\<newline>00:00:01,000 --> 00:00:04,000\<newline>Hello'' =
     [\<lparr>number = 5, sub_timestamp = ''00:00:01,000 --> 00:00:04,000'', sub_text = ''Hello''\<rparr>] \<and>
   (\<exists>block \<in> set (re_split match_blank
        (strip ''x\<newline>y\<newline>z\<newline>\<newline>5\<newline>00:00:01,000 --> 00:00:04,000\<newline>Hello'')).
      3 \<le> length (split newline (strip block)) \<and>
      decimal_int (strip (split newline (strip block) ! 0)) = Some 5 \<and>
      ''00:00:01,000 --> 00:00:04,000'' = strip (split newline (strip block) ! 1))"
proof -
  let ?v = "''WEBVTT\<newline>\<newline>00:00:01.000 --> 00:00:04.000 align:start\<newline>Hello''"
  let ?s = "''x\<newline>y\<newline>z\<newline>\<newline>5\<newline>00:00:01,000 --> 00:00:04,000\<newline>Hello''"
  have v: "parse_vtt_content ?v =
     [\<lparr>number = 1, sub_timestamp = ''00:00:01,000 --> 00:00:04,000'', sub_text = ''Hello''\<rparr>]"
    by code_simp
  have s: "parse_srt_content decimal_int ?s =
     [\<lparr>number = 5, sub_timestamp = ''00:00:01,000 --> 00:00:04,000'', sub_text = ''Hello''\<rparr>]"
    by code_simp
  from time_range_source [of ?v decimal_int ?s] show ?thesis
    unfolding v s by simp
qed

section \<open>Searching for the empty term\<close>

lemma contains_empty: "contains [] s"
  by (cases s) (simp_all add: startswith_def)

lemma matches_in_file_empty:
  "matches_in_file path [] case_sensitive subtitles = map (to_match path) subtitles"
  by (simp add: matches_in_file_def to_match_def lower_def contains_empty Let_def)

lemma search_empty_term:
  "search_in_subtitle_files pyint pf read file_paths [] cs False thr win strict =
     concat (map (\<lambda>path. map (to_match path) (parse_subtitle_file pyint read path)) file_paths)"
  "search_in_subtitle_files pyint pf read file_paths [] cs True thr win strict =
     deduplicate_matches pf
       (concat (map (\<lambda>path. map (to_match path) (parse_subtitle_file pyint read path)) file_paths))
       thr win strict"
  by (simp_all add: search_in_subtitle_files_def matches_in_file_empty)

text \<open>
  Claim C10, as the specification states it, has one match for every entry of every file.
  With deduplication on, as it is by default, the search deduplicates the matches before
  it returns them: on a file of two entries with the same text half a second apart, the
  empty term gives one match.
\<close>

theorem search_empty_term_counterexample:
  "length (parse_subtitle_file decimal_int example_read ''a.srt'') = 2 \<and>
   search_in_subtitle_files decimal_int decimal_float example_read [''a.srt''] []
       False True (4 / 5) 30 True =
     [\<lparr>file_path = ''a.srt'', timestamp = ''00:00:01,000 --> 00:00:02,000'',
       subtitle_number = 1, text' = ''Hi There''\<rparr>]"
  by code_simp

text \<open>
  Claim C10, amended. With deduplication off, the search for the empty term returns one
  match for every entry parsed from every file, in the order of the files and of their
  entries: the empty term is accepted and is found in every text. Each match carries the
  entry's text as it was parsed, not lower-cased, whether the search is case-sensitive or
  not. With deduplication on, the search returns the deduplication of that list.
\<close>

theorem search_empty_term_all_entries:
  "search_in_subtitle_files pyint pf read file_paths [] cs False thr win strict =
     concat (map (\<lambda>path. map (to_match path) (parse_subtitle_file pyint read path)) file_paths) \<and>
   search_in_subtitle_files pyint pf read file_paths [] cs True thr win strict =
     deduplicate_matches pf
       (concat (map (\<lambda>path. map (to_match path) (parse_subtitle_file pyint read path)) file_paths))
       thr win strict"
  using search_empty_term [of pyint pf read file_paths cs thr win strict] by (rule conjI)

theorem search_empty_term_all_entries_witness:
  "parse_subtitle_file decimal_int example_read ''a.srt'' =
     [\<lparr>number = 1, sub_timestamp = ''00:00:01,000 --> 00:00:02,000'', sub_text = ''Hi There''\<rparr>,
      \<lparr>number = 2, sub_timestamp = ''00:00:01,500 --> 00:00:02,500'', sub_text = ''Hi There''\<rparr>] \<and>
   search_in_subtitle_files decimal_int decimal_float example_read [''a.srt''] []
       False False (4 / 5) 30 True =
     [\<lparr>file_path = ''a.srt'', timestamp = ''00:00:01,000 --> 00:00:02,000'',
       subtitle_number = 1, text' = ''Hi There''\<rparr>,
      \<lparr>file_path = ''a.srt'', timestamp = ''00:00:01,500 --> 00:00:02,500'',
       subtitle_number = 2, text' = ''Hi There''\<rparr>]"
proof -
  have p: "parse_subtitle_file decimal_int example_read ''a.srt'' =
     [\<lparr>number = 1, sub_timestamp = ''00:00:01,000 --> 00:00:02,000'', sub_text = ''Hi There''\<rparr>,
      \<lparr>number = 2, sub_timestamp = ''00:00:01,500 --> 00:00:02,500'', sub_text = ''Hi There''\<rparr>]"
    by code_simp
  from search_empty_term_all_entries
    [of decimal_int decimal_float example_read "[''a.srt'']" False "4 / 5" 30 True]
  show ?thesis
    by (simp add: p to_match_def)
qed

section \<open>The cleaning of VTT lines\<close>

lemma re_sub_del_keep:
  "\<forall>i < length a. m (drop i (a @ s)) = None \<Longrightarrow> re_sub_del m (a @ s) = a @ re_sub_del m s"
proof (induction a)
  case Nil
  show ?case by simp
next
  case (Cons c a)
  from Cons.prems have h: "m (c # a @ s) = None" by (auto dest: spec [of _ 0])
  have "\<forall>i < length a. m (drop i (a @ s)) = None"
  proof (intro allI impI)
    fix i assume "i < length a"
    then have "Suc i < length (c # a)" by simp
    with Cons.prems have "m (drop (Suc i) ((c # a) @ s)) = None" by blast
    then show "m (drop i (a @ s)) = None" by simp
  qed
  with Cons.IH h show ?case by simp
qed

lemma length_takeWhile_less: "length (takeWhile P xs) < length xs \<longleftrightarrow> (\<exists>x \<in> set xs. \<not> P x)"
  by (induction xs) auto

lemma match_between_None: "c \<noteq> l \<Longrightarrow> match_between l r (c # cs) = None"
  by (simp add: match_between_def)

lemma match_between_Some:
  assumes "r \<notin> set body"
  shows "match_between l r (l # body @ r # s) = Some (length body + 2)"
proof -
  have "\<forall>x \<in> set body. x \<noteq> r" using assms by blast
  then have "takeWhile (\<lambda>x. x \<noteq> r) (body @ r # s) = body"
    by (simp add: takeWhile_append2)
  then show ?thesis by (simp add: match_between_def Let_def)
qed

lemma re_sub_del_between:
  assumes "l \<notin> set a" "r \<notin> set body"
  shows "re_sub_del (match_between l r) (a @ l # body @ r # s) = a @ re_sub_del (match_between l r) s"
proof -
  have "\<forall>i < length a. match_between l r (drop i (a @ l # body @ r # s)) = None"
  proof (intro allI impI)
    fix i assume i: "i < length a"
    then have "drop i (a @ l # body @ r # s) = a ! i # drop (Suc i) a @ l # body @ r # s"
      by (simp add: Cons_nth_drop_Suc)
    moreover have "a ! i \<noteq> l" using i assms(1) by (metis nth_mem)
    ultimately show "match_between l r (drop i (a @ l # body @ r # s)) = None"
      by (simp add: match_between_None)
  qed
  then have "re_sub_del (match_between l r) (a @ l # body @ r # s) =
      a @ re_sub_del (match_between l r) (l # body @ r # s)"
    by (rule re_sub_del_keep)
  also have "re_sub_del (match_between l r) (l # body @ r # s) = re_sub_del (match_between l r) s"
    using match_between_Some [OF assms(2), of l s] by simp
  finally show ?thesis .
qed

lemma subseq_re_sub_del: "subseq (re_sub_del m s) s"
proof (induction m s rule: re_sub_del.induct)
  case (1 m)
  show ?case by simp
next
  case (2 m c cs)
  show ?case
  proof (cases "m (c # cs)")
    case None
    from 2(1) [OF None] None show ?thesis by simp
  next
    case (Some n)
    have "subseq (drop (n - 1) cs) cs" by (simp add: suffix_imp_subseq suffix_drop)
    with 2(2) [OF Some] have "subseq (re_sub_del m (drop (n - 1) cs)) cs"
      by (rule subseq_order.order_trans)
    then have "subseq (re_sub_del m (drop (n - 1) cs)) (c # cs)" by (rule list_emb_Cons)
    with Some show ?thesis by simp
  qed
qed

lemma set_re_sub_del: "set (re_sub_del m s) \<subseteq> set s"
  using subseq_re_sub_del [of m s] by (auto dest: list_emb_set)

lemma no_pair_re_sub_del:
  assumes "l \<noteq> r"
  shows "\<not> subseq [l, r] (re_sub_del (match_between l r) s)"
proof (induction s rule: length_induct)
  case (1 s)
  show ?case
  proof (cases s)
    case Nil
    then show ?thesis by simp
  next
    case (Cons c cs)
    show ?thesis
    proof (cases "match_between l r (c # cs)")
      case (Some n)
      have "length (drop (n - 1) cs) < length s" using Cons by simp
      with 1 have "\<not> subseq [l, r] (re_sub_del (match_between l r) (drop (n - 1) cs))" by blast
      with Some Cons show ?thesis by simp
    next
      case None
      have ih: "\<not> subseq [l, r] (re_sub_del (match_between l r) cs)"
        using 1 Cons by simp
      show ?thesis
      proof (cases "c = l")
        case False
        with None ih Cons show ?thesis by simp
      next
        case True
        with None have "\<not> length (takeWhile (\<lambda>x. x \<noteq> r) cs) < length cs"
          by (simp add: match_between_def Let_def split: if_splits)
        then have "r \<notin> set cs" by (simp add: length_takeWhile_less)
        with set_re_sub_del have "r \<notin> set (re_sub_del (match_between l r) cs)" by blast
        with None ih Cons True assms show ?thesis by (simp add: subseq_singleton_left)
      qed
    qed
  qed
qed

lemma set_replace: "set (replace old new s) \<subseteq> set s \<union> set new"
  by (induction old new s rule: replace.induct) (auto dest: in_set_dropD)

lemma replace_removes: "a \<notin> set new \<Longrightarrow> a \<notin> set (replace [a] new s)"
  by (induction "[a]" new s rule: replace.induct) (auto simp add: startswith_def)

lemma replace_keep:
  assumes "old \<noteq> []" "hd old \<notin> set a"
  shows "replace old new (a @ s) = a @ replace old new s"
  using assms(2)
proof (induction a)
  case Nil
  show ?case by simp
next
  case (Cons c a)
  from Cons.prems assms(1) have "\<not> startswith (c # a @ s) old"
    by (cases old) (auto simp add: startswith_def)
  with Cons show ?case by simp
qed

lemma replace_match:
  "old \<noteq> [] \<Longrightarrow> replace old new (old @ s) = new @ replace old new s"
  by (cases old) (simp_all add: startswith_def)

lemma subseq_pair_append:
  "l \<notin> set n \<Longrightarrow> subseq [l, r] (n @ s) \<Longrightarrow> subseq [l, r] s"
  by (induction n) auto

lemma subseq_pair_replace:
  assumes "l \<notin> set new" "r \<notin> set new"
  shows "subseq [l, r] (replace old new s) \<Longrightarrow> subseq [l, r] s"
proof (induction s rule: length_induct)
  case (1 s)
  show ?case
  proof (cases s)
    case Nil
    with 1(2) show ?thesis by simp
  next
    case (Cons c cs)
    show ?thesis
    proof (cases "old \<noteq> [] \<and> startswith (c # cs) old")
      case True
      let ?d = "drop (length old - 1) cs"
      from True Cons 1(2) have "subseq [l, r] (new @ replace old new ?d)" by simp
      with assms(1) have "subseq [l, r] (replace old new ?d)" by (rule subseq_pair_append)
      moreover have "length ?d < length s" using Cons by simp
      ultimately have "subseq [l, r] ?d" using 1(1) by blast
      moreover have "subseq ?d (c # cs)"
        by (intro list_emb_Cons) (simp add: suffix_imp_subseq suffix_drop)
      ultimately show ?thesis unfolding Cons by (rule subseq_order.order_trans)
    next
      case False
      with Cons 1(2) have h: "subseq [l, r] (c # replace old new cs)" by auto
      show ?thesis
      proof (cases "c = l")
        case True
        with h have "r \<in> set (replace old new cs)" by (simp add: subseq_singleton_left)
        with set_replace assms(2) have "r \<in> set cs" by blast
        with True Cons show ?thesis by (simp add: subseq_singleton_left)
      next
        case False
        with h have "subseq [l, r] (replace old new cs)" by simp
        with 1(1) Cons have "subseq [l, r] cs" by simp
        then have "subseq [l, r] (c # cs)" by (rule list_emb_Cons)
        with Cons show ?thesis by blast
      qed
    qed
  qed
qed

lemma subseq_pair_re_sub_del:
  "subseq [l, r] (re_sub_del m s) \<Longrightarrow> subseq [l, r] s"
  using subseq_re_sub_del [of m s] subseq_order.order_trans by blast

lemma clean_text_line_no_markup:
  "\<not> subseq ''<>'' (clean_text_line t)" "\<not> subseq ''{}'' (clean_text_line t)"
proof -
  let ?a = "re_sub_del match_tag (strip t)"
  let ?b = "re_sub_del match_brace ?a"
  let ?c = "replace ''&nbsp;'' '' '' ?b"
  have c: "clean_text_line t = re_sub_del match_entity ?c" by (simp add: clean_text_line_def)
  have a: "\<not> subseq ''<>'' ?a" unfolding match_tag_def by (rule no_pair_re_sub_del) simp
  have b: "\<not> subseq ''{}'' ?b" unfolding match_brace_def by (rule no_pair_re_sub_del) simp
  show "\<not> subseq ''<>'' (clean_text_line t)"
  proof
    assume "subseq ''<>'' (clean_text_line t)"
    then have "subseq ''<>'' ?c" unfolding c by (rule subseq_pair_re_sub_del)
    then have "subseq ''<>'' ?b" by (rule subseq_pair_replace [rotated 2]) simp_all
    then have "subseq ''<>'' ?a" by (rule subseq_pair_re_sub_del)
    with a show False by contradiction
  qed
  show "\<not> subseq ''{}'' (clean_text_line t)"
  proof
    assume "subseq ''{}'' (clean_text_line t)"
    then have "subseq ''{}'' ?c" unfolding c by (rule subseq_pair_re_sub_del)
    then have "subseq ''{}'' ?b" by (rule subseq_pair_replace [rotated 2]) simp_all
    with b show False by contradiction
  qed
qed

lemma re_sub_del_at:
  assumes "\<forall>i < length a. m (drop i (a @ tok @ s)) = None" "tok \<noteq> []"
    "m (tok @ s) = Some (length tok)"
  shows "re_sub_del m (a @ tok @ s) = a @ re_sub_del m s"
proof -
  from assms(1) have "re_sub_del m (a @ tok @ s) = a @ re_sub_del m (tok @ s)"
    by (rule re_sub_del_keep)
  moreover from assms(2) obtain c cs where t: "tok = c # cs" by (cases tok) auto
  with assms(3) have "re_sub_del m (tok @ s) = re_sub_del m s" by simp
  ultimately show ?thesis by simp
qed

lemma takeWhile_run:
  "list_all P ws \<Longrightarrow> x = [] \<or> \<not> P (hd x) \<Longrightarrow> takeWhile P (ws @ x) = ws"
  by (cases x) (auto simp add: list_all_iff takeWhile_append2)

lemma dropWhile_run:
  "list_all P ws \<Longrightarrow> x = [] \<or> \<not> P (hd x) \<Longrightarrow> dropWhile P (ws @ x) = x"
  by (cases x) (auto simp add: list_all_iff dropWhile_append2)

lemma match_setting_key:
  assumes ws: "ws \<noteq> []" "list_all isspace ws"
    and v: "v \<noteq> []" "list_all (\<lambda>c. \<not> isspace c) v"
    and rest: "rest = [] \<or> isspace (hd rest)"
    and key: "filter (\<lambda>k'. startswith (k @ '':'' @ v @ rest) (k' @ '':''))
               [''align'', ''position'', ''size'', ''line''] = [k]"
    and hd: "\<not> isspace (hd (k @ '':'' @ v @ rest))"
  shows "match_setting (ws @ k @ '':'' @ v @ rest) = Some (length ws + length k + 1 + length v)"
proof -
  let ?x = "k @ '':'' @ v @ rest"
  have t: "takeWhile isspace (ws @ ?x) = ws" using ws(2) hd by (intro takeWhile_run) simp_all
  have d: "dropWhile isspace (ws @ ?x) = ?x" using ws(2) hd by (intro dropWhile_run) simp_all
  have val: "takeWhile (\<lambda>c. \<not> isspace c) (v @ rest) = v"
    using v(2) rest by (intro takeWhile_run) auto
  have dr: "drop (length k + 1) ?x = v @ rest" by simp
  show ?thesis
    unfolding match_setting_def Let_def t d key
    using ws(1) v(1) by (simp only: list.case dr val if_False)
qed

lemma match_setting_Some:
  assumes "setting_token (ws, k, v)" "rest = [] \<or> isspace (hd rest)"
  shows "match_setting (ws @ k @ '':'' @ v @ rest) = Some (length (token_text (ws, k, v)))"
proof -
  from assms(1) have ws: "ws \<noteq> []" "list_all isspace ws"
    and k: "k = ''align'' \<or> k = ''position'' \<or> k = ''size'' \<or> k = ''line''"
    and v: "v \<noteq> []" "list_all (\<lambda>c. \<not> isspace c) v"
    by (auto simp add: setting_token_def)
  have key: "filter (\<lambda>k'. startswith (k @ '':'' @ v @ rest) (k' @ '':''))
               [''align'', ''position'', ''size'', ''line''] = [k]"
    using k by (elim disjE) (simp_all add: startswith_def)
  have hd: "\<not> isspace (hd (k @ '':'' @ v @ rest))"
    using k by (elim disjE) (simp_all add: isspace_def)
  from match_setting_key [OF ws v assms(2) key hd] show ?thesis
    by (simp add: token_text_def)
qed

lemma re_sub_del_settings:
  "list_all setting_token settings \<Longrightarrow>
     re_sub_del match_setting (concat (map token_text settings)) = []"
proof (induction settings)
  case Nil
  show ?case by simp
next
  case (Cons t ts)
  obtain ws k v where t: "t = (ws, k, v)" by (cases t) auto
  let ?rest = "concat (map token_text ts)"
  have r: "?rest = [] \<or> isspace (hd ?rest)"
  proof (cases ts)
    case Nil
    then show ?thesis by simp
  next
    case (Cons u us)
    obtain ws' k' v' where u: "u = (ws', k', v')" by (cases u) auto
    with Cons Cons.prems \<open>ts = u # us\<close> have "ws' \<noteq> []" "list_all isspace ws'"
      by (auto simp add: setting_token_def)
    then have "isspace (hd (ws' @ k' @ '':'' @ v' @ concat (map token_text us)))"
      by (cases ws') auto
    with Cons u show ?thesis by (simp add: token_text_def)
  qed
  from Cons.prems t have st: "setting_token (ws, k, v)" by simp
  from match_setting_Some [OF st r]
  have m: "match_setting (token_text (ws, k, v) @ ?rest) = Some (length (token_text (ws, k, v)))"
    by (simp add: token_text_def)
  from st have ne: "token_text (ws, k, v) \<noteq> []"
    by (simp add: token_text_def setting_token_def)
  have "re_sub_del match_setting ([] @ token_text (ws, k, v) @ ?rest) =
      [] @ re_sub_del match_setting ?rest"
    using _ ne m by (rule re_sub_del_at) simp
  with Cons t show ?case by simp
qed

lemma strip_id: "s \<noteq> [] \<Longrightarrow> \<not> isspace (hd s) \<Longrightarrow> \<not> isspace (last s) \<Longrightarrow> strip s = s"
proof -
  assume s: "s \<noteq> []" "\<not> isspace (hd s)" "\<not> isspace (last s)"
  then have "dropWhile isspace s = s" by (cases s) auto
  moreover from s have "dropWhile isspace (rev s) = rev s"
    by (cases "rev s") (auto simp add: last_rev [symmetric] simp del: last_rev)
  ultimately show "strip s = s" by (simp add: strip_def)
qed

lemma last_settings:
  "list_all setting_token settings \<Longrightarrow> settings \<noteq> [] \<Longrightarrow>
     concat (map token_text settings) \<noteq> [] \<and> \<not> isspace (last (concat (map token_text settings)))"
proof (induction settings rule: rev_induct)
  case Nil
  then show ?case by simp
next
  case (snoc t ts)
  obtain ws k v where t: "t = (ws, k, v)" by (cases t) auto
  with snoc.prems have "v \<noteq> []" "list_all (\<lambda>c. \<not> isspace c) v"
    by (auto simp add: setting_token_def)
  then have "\<not> isspace (last v)" by (simp add: list_all_iff)
  with \<open>v \<noteq> []\<close> t show ?case by (simp add: token_text_def)
qed

lemma clean_timestamp_settings:
  assumes "base \<noteq> []" "\<not> isspace (hd base)" "\<not> isspace (last base)"
    and "list_all setting_token settings"
    and "no_setting_inside base (concat (map token_text settings))"
  shows "clean_timestamp (base @ concat (map token_text settings)) = replace ''.'' '','' base"
proof -
  let ?toks = "concat (map token_text settings)"
  have l: "\<not> isspace (last (base @ ?toks))"
  proof (cases "settings = []")
    case True
    with assms(3) show ?thesis by simp
  next
    case False
    with last_settings [OF assms(4)] show ?thesis by simp
  qed
  have "strip (base @ ?toks) = base @ ?toks"
    using assms(1,2) l by (intro strip_id) simp_all
  moreover have "re_sub_del match_setting (base @ ?toks) = base @ re_sub_del match_setting ?toks"
    using assms(5) by (intro re_sub_del_keep) (simp add: no_setting_inside_def list_all_iff)
  ultimately show ?thesis
    by (simp add: clean_timestamp_def re_sub_del_settings [OF assms(4)])
qed

lemma clean_timestamp_no_dot: "CHR ''.'' \<notin> set (clean_timestamp l)"
  unfolding clean_timestamp_def by (rule replace_removes) simp

lemma match_entity_Some:
  assumes "name \<noteq> []" "list_all ascii_letter name"
  shows "match_entity (CHR ''&'' # name @ CHR '';'' # s) = Some (length name + 2)"
proof -
  have "takeWhile ascii_letter (name @ CHR '';'' # s) = name"
    using assms(2) by (intro takeWhile_run) (simp_all add: ascii_letter_def)
  with assms(1) show ?thesis by (simp add: match_entity_def Let_def startswith_def)
qed

lemma re_sub_del_entity:
  assumes "CHR ''&'' \<notin> set a" "name \<noteq> []" "list_all ascii_letter name"
  shows "re_sub_del match_entity (a @ ''&'' @ name @ '';'' @ s) = a @ re_sub_del match_entity s"
proof -
  let ?tok = "''&'' @ name @ '';''"
  have "\<forall>i < length a. match_entity (drop i (a @ ?tok @ s)) = None"
  proof (intro allI impI)
    fix i assume i: "i < length a"
    then have "drop i (a @ ?tok @ s) = a ! i # drop (Suc i) a @ ?tok @ s"
      by (simp add: Cons_nth_drop_Suc)
    moreover have "a ! i \<noteq> CHR ''&''" using i assms(1) by (metis nth_mem)
    ultimately show "match_entity (drop i (a @ ?tok @ s)) = None"
      by (simp add: match_entity_def)
  qed
  moreover have "?tok \<noteq> []" by simp
  moreover have "match_entity (?tok @ s) = Some (length ?tok)"
    using match_entity_Some [OF assms(2,3), of s] by simp
  ultimately have "re_sub_del match_entity (a @ ?tok @ s) = a @ re_sub_del match_entity s"
    by (rule re_sub_del_at)
  then show ?thesis by simp
qed

lemma replace_nbsp:
  assumes "CHR ''&'' \<notin> set a"
  shows "replace ''&nbsp;'' '' '' (a @ ''&nbsp;'' @ s) = a @ '' '' @ replace ''&nbsp;'' '' '' s"
proof -
  have "replace ''&nbsp;'' '' '' (a @ ''&nbsp;'' @ s) = a @ replace ''&nbsp;'' '' '' (''&nbsp;'' @ s)"
    using assms by (intro replace_keep) simp_all
  also have "replace ''&nbsp;'' '' '' (''&nbsp;'' @ s) = '' '' @ replace ''&nbsp;'' '' '' s"
    by (rule replace_match) simp
  finally show ?thesis .
qed

lemma vtt_cues_no_text:
  assumes "contains ''-->'' l"
    and "\<forall>t \<in> set (takeWhile (\<lambda>x. strip x \<noteq> []) rest). clean_text_line t = []"
  shows "vtt_cues n (l # rest) = vtt_cues (n + 1) (dropWhile (\<lambda>x. strip x \<noteq> []) rest)"
proof -
  from assms(2) have "filter (\<lambda>t. t \<noteq> [])
      (map clean_text_line (takeWhile (\<lambda>x. strip x \<noteq> []) rest)) = []"
    by (simp add: filter_empty_conv)
  with assms(1) show ?thesis by (simp add: Let_def)
qed

lemma join_nonempty: "xs \<noteq> [] \<Longrightarrow> \<forall>x \<in> set xs. x \<noteq> [] \<Longrightarrow> join sep xs \<noteq> []"
  by (induction sep xs rule: join.induct) auto

lemma vtt_cues_text_nonempty: "\<forall>cue \<in> set (vtt_cues n ls). sub_text cue \<noteq> []"
proof (induction n ls rule: vtt_cues.induct)
  case (1 n)
  show ?case by simp
next
  case (2 n l rest)
  show ?case
  proof (cases "contains ''-->'' l")
    case True
    let ?texts = "filter (\<lambda>t. t \<noteq> []) (map clean_text_line (takeWhile (\<lambda>x. strip x \<noteq> []) rest))"
    have "?texts \<noteq> [] \<Longrightarrow> join newline ?texts \<noteq> []"
      by (rule join_nonempty) simp_all
    with 2(1) [OF True refl] True show ?thesis
      by (auto simp add: Let_def)
  next
    case False
    with 2(2) show ?thesis by auto
  qed
qed

text \<open>
  Claim C9. The time-range line of a VTT cue is stripped, its cue settings (whitespace, one
  of \<open>align\<close>, \<open>position\<close>, \<open>size\<close>, \<open>line\<close>, a colon and a value) are deleted and every
  \<open>.\<close> becomes \<open>,\<close>: the line \<open>00:00:01.500 --> 00:00:03.000 align:start position:50%\<close>
  becomes \<open>00:00:01,500 --> 00:00:03,000\<close>, no cleaned line contains a \<open>.\<close>, and a time
  range followed by cue settings becomes the time range with \<open>,\<close> for \<open>.\<close>. A text line
  is stripped, then its markup from \<open><\<close> to \<open>>\<close> is deleted, then its braces from \<open>{\<close> to
  \<open>}\<close>, then every \<open>&nbsp;\<close> becomes a space, then the other named entities are deleted;
  in the cleaned line no \<open><\<close> is followed by a \<open>>\<close> and no \<open>{\<close> by a \<open>}\<close>. A cue whose text
  lines are all empty after the cleaning yields no entry, and the text of every entry is
  non-empty.
\<close>

theorem vtt_normalization:
  "clean_timestamp ''00:00:01.500 --> 00:00:03.000 align:start position:50%'' =
     ''00:00:01,500 --> 00:00:03,000'' \<and>
   CHR ''.'' \<notin> set (clean_timestamp l) \<and>
   (base \<noteq> [] \<and> \<not> isspace (hd base) \<and> \<not> isspace (last base) \<and>
    list_all setting_token settings \<and>
    no_setting_inside base (concat (map token_text settings)) \<longrightarrow>
      clean_timestamp (base @ concat (map token_text settings)) = replace ''.'' '','' base) \<and>
   clean_text_line t =
     re_sub_del match_entity (replace ''&nbsp;'' '' ''
       (re_sub_del match_brace (re_sub_del match_tag (strip t)))) \<and>
   (CHR ''<'' \<notin> set a \<and> CHR ''>'' \<notin> set body \<longrightarrow>
      re_sub_del match_tag (a @ ''<'' @ body @ ''>'' @ s) = a @ re_sub_del match_tag s) \<and>
   (CHR ''{'' \<notin> set a \<and> CHR ''}'' \<notin> set body \<longrightarrow>
      re_sub_del match_brace (a @ ''{'' @ body @ ''}'' @ s) = a @ re_sub_del match_brace s) \<and>
   (CHR ''&'' \<notin> set a \<longrightarrow>
      replace ''&nbsp;'' '' '' (a @ ''&nbsp;'' @ s) = a @ '' '' @ replace ''&nbsp;'' '' '' s) \<and>
   (CHR ''&'' \<notin> set a \<and> name \<noteq> [] \<and> list_all ascii_letter name \<longrightarrow>
      re_sub_del match_entity (a @ ''&'' @ name @ '';'' @ s) = a @ re_sub_del match_entity s) \<and>
   \<not> subseq ''<>'' (clean_text_line t) \<and> \<not> subseq ''{}'' (clean_text_line t) \<and>
   (contains ''-->'' cue_line \<and>
    (\<forall>x \<in> set (takeWhile (\<lambda>x. strip x \<noteq> []) rest). clean_text_line x = []) \<longrightarrow>
      vtt_cues n (cue_line # rest) = vtt_cues (n + 1) (dropWhile (\<lambda>x. strip x \<noteq> []) rest)) \<and>
   (\<forall>cue \<in> set (parse_vtt_content raw). sub_text cue \<noteq> [])"
proof (intro conjI impI)
  show "clean_timestamp ''00:00:01.500 --> 00:00:03.000 align:start position:50%'' =
     ''00:00:01,500 --> 00:00:03,000''"
    by code_simp
  show "CHR ''.'' \<notin> set (clean_timestamp l)" by (rule clean_timestamp_no_dot)
  show "clean_text_line t =
     re_sub_del match_entity (replace ''&nbsp;'' '' ''
       (re_sub_del match_brace (re_sub_del match_tag (strip t))))"
    by (rule clean_text_line_def)
  show "\<not> subseq ''<>'' (clean_text_line t)" by (rule clean_text_line_no_markup(1))
  show "\<not> subseq ''{}'' (clean_text_line t)" by (rule clean_text_line_no_markup(2))
  show "\<forall>cue \<in> set (parse_vtt_content raw). sub_text cue \<noteq> []"
    unfolding parse_vtt_content_def by (rule vtt_cues_text_nonempty)
next
  assume "base \<noteq> [] \<and> \<not> isspace (hd base) \<and> \<not> isspace (last base) \<and>
    list_all setting_token settings \<and>
    no_setting_inside base (concat (map token_text settings))"
  then show "clean_timestamp (base @ concat (map token_text settings)) = replace ''.'' '','' base"
    by (intro clean_timestamp_settings) simp_all
next
  assume "CHR ''<'' \<notin> set a \<and> CHR ''>'' \<notin> set body"
  then show "re_sub_del match_tag (a @ ''<'' @ body @ ''>'' @ s) = a @ re_sub_del match_tag s"
    using re_sub_del_between [of "CHR ''<''" a "CHR ''>''" body s]
    by (simp add: match_tag_def)
next
  assume "CHR ''{'' \<notin> set a \<and> CHR ''}'' \<notin> set body"
  then show "re_sub_del match_brace (a @ ''{'' @ body @ ''}'' @ s) = a @ re_sub_del match_brace s"
    using re_sub_del_between [of "CHR ''{''" a "CHR ''}''" body s]
    by (simp add: match_brace_def)
next
  assume "CHR ''&'' \<notin> set a"
  then show "replace ''&nbsp;'' '' '' (a @ ''&nbsp;'' @ s) = a @ '' '' @ replace ''&nbsp;'' '' '' s"
    by (rule replace_nbsp)
next
  assume "CHR ''&'' \<notin> set a \<and> name \<noteq> [] \<and> list_all ascii_letter name"
  then show "re_sub_del match_entity (a @ ''&'' @ name @ '';'' @ s) = a @ re_sub_del match_entity s"
    by (intro re_sub_del_entity) simp_all
next
  assume "contains ''-->'' cue_line \<and>
    (\<forall>x \<in> set (takeWhile (\<lambda>x. strip x \<noteq> []) rest). clean_text_line x = [])"
  then show "vtt_cues n (cue_line # rest) = vtt_cues (n + 1) (dropWhile (\<lambda>x. strip x \<noteq> []) rest)"
    by (intro vtt_cues_no_text) simp_all
qed

theorem vtt_normalization_witness:
  "list_all setting_token [('' '', ''align'', ''start''), ('' '', ''position'', ''50%'')] \<and>
   no_setting_inside ''00:00:01.500 --> 00:00:03.000''
     (concat (map token_text [('' '', ''align'', ''start''), ('' '', ''position'', ''50%'')])) \<and>
   clean_timestamp (''00:00:01.500 --> 00:00:03.000'' @
       concat (map token_text [('' '', ''align'', ''start''), ('' '', ''position'', ''50%'')])) =
     ''00:00:01,500 --> 00:00:03,000'' \<and>
   re_sub_del match_tag (''hello '' @ ''<'' @ ''i'' @ ''>'' @ ''world'') = ''hello world'' \<and>
   re_sub_del match_brace (''Hi '' @ ''{'' @ ''an8'' @ ''}'' @ ''you'') = ''Hi you'' \<and>
   replace ''&nbsp;'' '' '' (''a'' @ ''&nbsp;'' @ ''b'') = ''a b'' \<and>
   list_all ascii_letter ''amp'' \<and>
   re_sub_del match_entity (''x'' @ ''&'' @ ''amp'' @ '';'' @ ''y'') = ''xy'' \<and>
   contains ''-->'' ''00:01.000 --> 00:02.000'' \<and>
   takeWhile (\<lambda>x. strip x \<noteq> []) [''<i></i>'', '''', ''next''] = [''<i></i>''] \<and>
   clean_text_line ''<i></i>'' = [] \<and>
   vtt_cues 0 [''00:01.000 --> 00:02.000'', ''<i></i>'', '''', ''next''] =
     vtt_cues 1 ['''', ''next''] \<and>
   parse_vtt_content ''WEBVTT\<newline>\<newline>00:00:01.000 --> 00:00:05.000\<newline>hello <i>world</i>'' =
     [\<lparr>number = 1, sub_timestamp = ''00:00:01,000 --> 00:00:05,000'',
       sub_text = ''hello world''\<rparr>] \<and>
   sub_text \<lparr>number = 1, sub_timestamp = ''00:00:01,000 --> 00:00:05,000'',
       sub_text = ''hello world''\<rparr> \<noteq> []"
proof -
  let ?b = "''00:00:01.500 --> 00:00:03.000''"
  let ?st = "[('' '', ''align'', ''start''), ('' '', ''position'', ''50%'')]"
  let ?rest = "[''<i></i>'', '''', ''next'']"
  let ?raw = "''WEBVTT\<newline>\<newline>00:00:01.000 --> 00:00:05.000\<newline>hello <i>world</i>''"
  let ?cue = "\<lparr>number = 1, sub_timestamp = ''00:00:01,000 --> 00:00:05,000'',
       sub_text = ''hello world''\<rparr>"
  have h1: "?b \<noteq> []" "\<not> isspace (hd ?b)" "\<not> isspace (last ?b)" by code_simp+
  have h2: "list_all setting_token ?st" by code_simp
  have h3: "no_setting_inside ?b (concat (map token_text ?st))" by code_simp
  have r1: "replace ''.'' '','' ?b = ''00:00:01,500 --> 00:00:03,000''" by code_simp
  have "?b \<noteq> [] \<and> \<not> isspace (hd ?b) \<and> \<not> isspace (last ?b) \<and>
    list_all setting_token ?st \<and> no_setting_inside ?b (concat (map token_text ?st))"
    using h1 h2 h3 by (intro conjI)
  then have "clean_timestamp (?b @ concat (map token_text ?st)) = replace ''.'' '','' ?b"
    by (rule vtt_normalization [where base = ?b and settings = ?st,
        THEN conjunct2, THEN conjunct2, THEN conjunct1, THEN mp])
  then have f1: "clean_timestamp (?b @ concat (map token_text ?st)) =
      ''00:00:01,500 --> 00:00:03,000''"
    by (simp only: r1)
  have t1: "''hello '' @ re_sub_del match_tag ''world'' = ''hello world''" by code_simp
  have "CHR ''<'' \<notin> set ''hello '' \<and> CHR ''>'' \<notin> set ''i''" by code_simp
  then have "re_sub_del match_tag (''hello '' @ ''<'' @ ''i'' @ ''>'' @ ''world'') =
      ''hello '' @ re_sub_del match_tag ''world''"
    by (rule vtt_normalization [where a = "''hello ''" and body = "''i''" and s = "''world''",
        THEN conjunct2, THEN conjunct2, THEN conjunct2, THEN conjunct2, THEN conjunct1, THEN mp])
  then have f2: "re_sub_del match_tag (''hello '' @ ''<'' @ ''i'' @ ''>'' @ ''world'') =
      ''hello world''"
    by (simp only: t1)
  have t2: "''Hi '' @ re_sub_del match_brace ''you'' = ''Hi you''" by code_simp
  have "CHR ''{'' \<notin> set ''Hi '' \<and> CHR ''}'' \<notin> set ''an8''" by code_simp
  then have "re_sub_del match_brace (''Hi '' @ ''{'' @ ''an8'' @ ''}'' @ ''you'') =
      ''Hi '' @ re_sub_del match_brace ''you''"
    by (rule vtt_normalization [where a = "''Hi ''" and body = "''an8''" and s = "''you''",
        THEN conjunct2, THEN conjunct2, THEN conjunct2, THEN conjunct2, THEN conjunct2,
        THEN conjunct1, THEN mp])
  then have f3: "re_sub_del match_brace (''Hi '' @ ''{'' @ ''an8'' @ ''}'' @ ''you'') = ''Hi you''"
    by (simp only: t2)
  have t3: "''a'' @ '' '' @ replace ''&nbsp;'' '' '' ''b'' = ''a b''" by code_simp
  have "CHR ''&'' \<notin> set ''a''" by code_simp
  then have "replace ''&nbsp;'' '' '' (''a'' @ ''&nbsp;'' @ ''b'') =
      ''a'' @ '' '' @ replace ''&nbsp;'' '' '' ''b''"
    by (rule vtt_normalization [where a = "''a''" and s = "''b''",
        THEN conjunct2, THEN conjunct2, THEN conjunct2, THEN conjunct2, THEN conjunct2,
        THEN conjunct2, THEN conjunct1, THEN mp])
  then have f4: "replace ''&nbsp;'' '' '' (''a'' @ ''&nbsp;'' @ ''b'') = ''a b''"
    by (simp only: t3)
  have h4: "list_all ascii_letter ''amp''" by code_simp
  have t4: "''x'' @ re_sub_del match_entity ''y'' = ''xy''" by code_simp
  have "CHR ''&'' \<notin> set ''x'' \<and> ''amp'' \<noteq> [] \<and> list_all ascii_letter ''amp''" by code_simp
  then have "re_sub_del match_entity (''x'' @ ''&'' @ ''amp'' @ '';'' @ ''y'') =
      ''x'' @ re_sub_del match_entity ''y''"
    by (rule vtt_normalization [where a = "''x''" and name = "''amp''" and s = "''y''",
        THEN conjunct2, THEN conjunct2, THEN conjunct2, THEN conjunct2, THEN conjunct2,
        THEN conjunct2, THEN conjunct2, THEN conjunct1, THEN mp])
  then have f5: "re_sub_del match_entity (''x'' @ ''&'' @ ''amp'' @ '';'' @ ''y'') = ''xy''"
    by (simp only: t4)
  have h5: "contains ''-->'' ''00:01.000 --> 00:02.000''" by code_simp
  have h6: "takeWhile (\<lambda>x. strip x \<noteq> []) ?rest = [''<i></i>'']" by code_simp
  have h7: "clean_text_line ''<i></i>'' = []" by code_simp
  have h8: "dropWhile (\<lambda>x. strip x \<noteq> []) ?rest = ['''', ''next'']" by code_simp
  have "\<forall>x \<in> set (takeWhile (\<lambda>x. strip x \<noteq> []) ?rest). clean_text_line x = []"
    unfolding h6 using h7 by simp
  with h5 have "contains ''-->'' ''00:01.000 --> 00:02.000'' \<and>
      (\<forall>x \<in> set (takeWhile (\<lambda>x. strip x \<noteq> []) ?rest). clean_text_line x = [])"
    by (rule conjI)
  then have "vtt_cues 0 (''00:01.000 --> 00:02.000'' # ?rest) =
      vtt_cues (0 + 1) (dropWhile (\<lambda>x. strip x \<noteq> []) ?rest)"
    by (rule vtt_normalization [where cue_line = "''00:01.000 --> 00:02.000''" and rest = ?rest
        and n = 0,
        THEN conjunct2, THEN conjunct2, THEN conjunct2, THEN conjunct2, THEN conjunct2,
        THEN conjunct2, THEN conjunct2, THEN conjunct2, THEN conjunct2, THEN conjunct2,
        THEN conjunct1, THEN mp])
  then have f6: "vtt_cues 0 [''00:01.000 --> 00:02.000'', ''<i></i>'', '''', ''next''] =
      vtt_cues 1 ['''', ''next'']"
    by (simp only: h8 add_0)
  have p: "parse_vtt_content ?raw = [?cue]" by code_simp
  have "?cue \<in> set (parse_vtt_content ?raw)" unfolding p by simp
  then have f7: "sub_text ?cue \<noteq> []"
    by (rule vtt_normalization [where raw = ?raw,
        THEN conjunct2, THEN conjunct2, THEN conjunct2, THEN conjunct2, THEN conjunct2,
        THEN conjunct2, THEN conjunct2, THEN conjunct2, THEN conjunct2, THEN conjunct2,
        THEN conjunct2, THEN bspec])
  show ?thesis
    using h2 h3 f1 f2 f3 f4 h4 f5 h5 h6 h7 f6 p f7 by (intro conjI)
qed

end
